theory Spec2Isabelle
  imports Complex_Main "HOL-Library.Sublist" "HOL-Library.Char_ord" "HOL-Library.List_Lexorder"
    "HOL-Library.Code_Target_Nat"
begin

section \<open>Data model\<close>

text \<open>
  The exceptions the repository's own code can raise or let through: a failure of the
  platform client during a listing, \<open>simple_url[-1]\<close> on an empty string, a missing key of
  \<open>gameData\<close>, the \<open>assert\<close> on the collection period, and \<open>timedelta(days=None)\<close>.
\<close>

datatype error = RetrievalFailure | IndexError | KeyError | AssertionError | TypeError

text \<open>
  A \<open>datetime.date\<close>. Python keeps \<open>1 \<le> year \<le> 9999\<close>, \<open>1 \<le> month \<le> 12\<close> and the day
  within the month; \<open>valid_date\<close> is that invariant (with the day bounded by 31).
\<close>

record pydate =
  year :: nat
  month :: nat
  day :: nat

definition valid_date :: "pydate \<Rightarrow> bool" where
  "valid_date d \<longleftrightarrow> 1 \<le> year d \<and> year d \<le> 9999 \<and> 1 \<le> month d \<and> month d \<le> 12
     \<and> 1 \<le> day d \<and> day d \<le> 31"

definition date_less :: "pydate \<Rightarrow> pydate \<Rightarrow> bool" where
  "date_less a b \<longleftrightarrow> year a < year b \<or> (year a = year b \<and>
     (month a < month b \<or> (month a = month b \<and> day a < day b)))"

text \<open>
  The submission object of the platform client, with the attributes the code reads.
  Floats (\<open>created_utc\<close>, \<open>upvote_ratio\<close>) are the rationals they denote.
\<close>

record submission =
  p_author :: "string option"
  p_subreddit :: string
  p_created_utc :: rat
  p_title :: string
  p_selftext :: string
  p_permalink :: string
  p_url :: string
  p_score :: int
  p_num_comments :: int
  p_id :: string
  p_upvote_ratio :: rat

text \<open>An item of a redditor's listing: a submission, or a comment (with its id).\<close>

datatype item = Submission submission | Comment string

text \<open>
  A call of the platform client: \<open>subreddit(name).search(query, sort, time_filter, limit)\<close>,
  \<open>subreddit(name).new(limit)\<close> or \<open>redditor(user).new(limit)\<close>.
\<close>

datatype api_call =
    Search string string string string "int option"
  | SubredditNew string "int option"
  | RedditorNew string "int option"

text \<open>
  Everything outside the repository. A listing is the list of items it delivers and a flag
  telling whether it raised after them; what a call returns may depend on all the calls made
  so far (the last element of the history is the call itself).
  \<open>fromtimestamp\<close> is \<open>datetime.date.fromtimestamp\<close> (it depends on the local time zone),
  \<open>truediv\<close> is the float division \<open>score / upvote_ratio\<close> with its rounding,
  \<open>today\<close> is \<open>datetime.date.today()\<close>, \<open>minus_days d n\<close> is \<open>d - timedelta(days=n)\<close>, and
  \<open>urlparse\<close> gives the texts that \<open>'{}{}'.format\<close> prints for the \<open>netloc\<close> and the \<open>path\<close>
  of \<open>urllib.parse.urlparse(url)\<close>. The library functions are taken to return: time stamps
  are in the range of dates, and the quotient is a finite float.
\<close>

record env =
  subreddit_search :: "api_call list \<Rightarrow> submission list \<times> bool"
  subreddit_new :: "api_call list \<Rightarrow> submission list \<times> bool"
  redditor_new :: "api_call list \<Rightarrow> item list \<times> bool"
  fromtimestamp :: "rat \<Rightarrow> pydate"
  truediv :: "int \<Rightarrow> rat \<Rightarrow> rat"
  today :: pydate
  minus_days :: "pydate \<Rightarrow> nat \<Rightarrow> pydate"
  urlparse :: "string option \<Rightarrow> string \<times> string"

text \<open>The class \<open>RedditSubmission\<close> (\<open>text'\<close> is its attribute \<open>text\<close>, \<open>id'\<close> its \<open>id\<close>).\<close>

record reddit_submission =
  redditUsername :: "string option"
  subreddit :: string
  created :: string
  title :: string
  text' :: string
  url :: string
  external_url :: string
  upvotes :: int
  comments :: int
  id' :: string
  downvotes :: int

section \<open>Strings and dates of the Python library\<close>

text \<open>\<open>str.lower\<close> on the ASCII letters.\<close>

definition lower_char :: "char \<Rightarrow> char" where
  "lower_char c = (let n = (of_char c :: nat) in if 65 \<le> n \<and> n \<le> 90 then char_of (n + 32) else c)"

definition lower :: "string \<Rightarrow> string" where
  "lower s = map lower_char s"

text \<open>\<open>'%d' % n\<close> and \<open>'%0wd' % n\<close> for a natural number.\<close>

definition digit_char :: "nat \<Rightarrow> char" where
  "digit_char n = char_of (48 + n mod 10)"

fun decimal :: "nat \<Rightarrow> string" where
  "decimal n = (if n < 10 then [digit_char n] else decimal (n div 10) @ [digit_char n])"

definition zero_pad :: "nat \<Rightarrow> nat \<Rightarrow> string" where
  "zero_pad w n = replicate (w - length (decimal n)) (CHR ''0'') @ decimal n"

text \<open>\<open>str(d)\<close> of a date: \<open>'%04d-%02d-%02d' % (year, month, day)\<close>.\<close>

definition date_str :: "pydate \<Rightarrow> string" where
  "date_str d = zero_pad 4 (year d) @ ''-'' @ zero_pad 2 (month d) @ ''-'' @ zero_pad 2 (day d)"

text \<open>\<open>int(x)\<close> of a finite float: truncation towards zero.\<close>

definition py_int :: "rat \<Rightarrow> int" where
  "py_int x = (if 0 \<le> x then \<lfloor>x\<rfloor> else \<lceil>x\<rceil>)"

section \<open>core.py\<close>

text \<open>\<open>RedditSubmission.__init__\<close>.\<close>

definition RedditSubmission :: "env \<Rightarrow> submission \<Rightarrow> reddit_submission" where
  "RedditSubmission e s =
     \<lparr> redditUsername = p_author s,
       subreddit = p_subreddit s,
       created = date_str (fromtimestamp e (p_created_utc s)),
       title = p_title s,
       text' = p_selftext s,
       url = p_permalink s,
       external_url = p_url s,
       upvotes = p_score s,
       comments = p_num_comments s,
       id' = p_id s,
       downvotes = (if p_upvote_ratio s = 0 then 0
                    else py_int (truediv e (p_score s) (p_upvote_ratio s)) - p_score s) \<rparr>"

text \<open>
  \<open>query_in_submission\<close>, local to \<open>Reddit.search\<close>: the verdict, and the two flags of the
  dictionary it returns beside it.
\<close>

definition query_in_submission :: "string \<Rightarrow> submission \<Rightarrow> bool \<times> bool \<times> bool" where
  "query_in_submission q s =
     (let q' = lower q;
          in_title = sublist q' (lower (p_title s));
          in_text = sublist q' (lower (p_selftext s))
      in (in_title \<or> in_text, in_title, in_text))"

text \<open>
  The state of one run of the generator \<open>Reddit.search\<close>, consumed to its end: the set
  \<open>seen_ids\<close>, the records yielded so far, the calls made to the platform so far, and the
  exception that ended the run, if any.
\<close>

record search_state =
  seen_ids :: "string set"
  yielded :: "reddit_submission list"
  calls :: "api_call list"
  failure :: "error option"

text \<open>The body of the loops over the submissions of one listing.\<close>

definition visit :: "env \<Rightarrow> string \<Rightarrow> submission \<Rightarrow> search_state \<Rightarrow> search_state" where
  "visit e query s st =
     (if p_id s \<notin> seen_ids st then
        (let st' = st\<lparr>seen_ids := insert (p_id s) (seen_ids st)\<rparr>
         in if fst (query_in_submission query s)
            then st'\<lparr>yielded := yielded st' @ [RedditSubmission e s]\<rparr>
            else st')
      else st)"

text \<open>
  One \<open>for submission in self._search(search_query, subreddit_name, sort, time_filter, limit)\<close>.
\<close>

definition search_listing ::
  "env \<Rightarrow> string \<Rightarrow> string \<Rightarrow> string \<Rightarrow> string \<Rightarrow> string \<Rightarrow> int option
     \<Rightarrow> search_state \<Rightarrow> search_state" where
  "search_listing e query search_query subreddit_name srt time_filter limit st =
     (let cs = calls st @ [Search search_query subreddit_name srt time_filter limit];
          listing = subreddit_search e cs;
          st' = fold (visit e query) (fst listing) (st\<lparr>calls := cs\<rparr>)
      in if snd listing then st'\<lparr>failure := Some RetrievalFailure\<rparr> else st')"

text \<open>The loop \<open>for sort in search_sorts[1:]\<close>; an exception ends it.\<close>

fun remaining_sorts ::
  "env \<Rightarrow> string \<Rightarrow> string \<Rightarrow> string \<Rightarrow> string \<Rightarrow> int option \<Rightarrow> string list
     \<Rightarrow> search_state \<Rightarrow> search_state" where
  "remaining_sorts e query search_query subreddit_name time_filter limit [] st = st"
| "remaining_sorts e query search_query subreddit_name time_filter limit (srt # sorts) st =
     (let st' = search_listing e query search_query subreddit_name srt time_filter limit st
      in if failure st' = None
         then remaining_sorts e query search_query subreddit_name time_filter limit sorts st'
         else st')"

text \<open>The body of \<open>for subreddit_name in subreddits\<close>.\<close>

definition search_subreddit ::
  "env \<Rightarrow> string \<Rightarrow> string \<Rightarrow> string list \<Rightarrow> string \<Rightarrow> int option \<Rightarrow> string
     \<Rightarrow> search_state \<Rightarrow> search_state" where
  "search_subreddit e query search_query search_sorts time_filter limit subreddit_name st =
     (case search_sorts of
        [] \<Rightarrow> st\<lparr>failure := Some IndexError\<rparr>
      | srt # sorts \<Rightarrow>
          (let st' = search_listing e query search_query subreddit_name srt time_filter limit st
           in if failure st' \<noteq> None then st'
              else if 250 \<le> card (seen_ids st')
              then remaining_sorts e query search_query subreddit_name time_filter limit sorts st'
              else st'))"

text \<open>The loop over the subreddits; an exception ends it.\<close>

fun search_subreddits ::
  "env \<Rightarrow> string \<Rightarrow> string \<Rightarrow> string list \<Rightarrow> string \<Rightarrow> int option \<Rightarrow> string list
     \<Rightarrow> search_state \<Rightarrow> search_state" where
  "search_subreddits e query search_query search_sorts time_filter limit [] st = st"
| "search_subreddits e query search_query search_sorts time_filter limit (name # names) st =
     (let st' = search_subreddit e query search_query search_sorts time_filter limit name st
      in if failure st' = None
         then search_subreddits e query search_query search_sorts time_filter limit names st'
         else st')"

text \<open>The argument \<open>subreddits\<close>: one name, or a list of names.\<close>

datatype subreddits = Str string | Lst "string list"

definition TIME_FILTER_DEFAULT :: string where
  "TIME_FILTER_DEFAULT = ''year''"

text \<open>
  \<open>Reddit.search\<close>, started after the calls \<open>history\<close> were made: the final state of the
  generator.
\<close>

definition search ::
  "env \<Rightarrow> api_call list \<Rightarrow> string \<Rightarrow> subreddits \<Rightarrow> string \<Rightarrow> int option \<Rightarrow> string option
     \<Rightarrow> search_state" where
  "search e history query subs time_filter limit search_sort =
     (let search_query = [CHR 0x22] @ lower query @ [CHR 0x22];
          search_sorts = (case search_sort of
                            None \<Rightarrow> [''relevance'', ''hot'', ''top'', ''new'', ''comments'']
                          | Some srt \<Rightarrow> [srt]);
          names = (case subs of Str name \<Rightarrow> [name] | Lst names \<Rightarrow> names)
      in search_subreddits e query search_query search_sorts time_filter limit names
           \<lparr>seen_ids = {}, yielded = [], calls = history, failure = None\<rparr>)"

text \<open>
  \<open>Reddit.search_for_multiple_terms\<close>. The state of the generator is again the set of ids
  (\<open>s\<close> in the source), the records yielded, the calls made and the exception that ended
  it. \<open>collect\<close> is the body of the inner loop.
\<close>

definition collect :: "reddit_submission \<Rightarrow> search_state \<Rightarrow> search_state" where
  "collect r st =
     (if id' r \<in> seen_ids st then st
      else st\<lparr>seen_ids := insert (id' r) (seen_ids st), yielded := yielded st @ [r]\<rparr>)"

fun search_terms_loop ::
  "env \<Rightarrow> subreddits \<Rightarrow> string option \<Rightarrow> string list \<Rightarrow> search_state \<Rightarrow> search_state" where
  "search_terms_loop e subreddit_name search_sort [] st = st"
| "search_terms_loop e subreddit_name search_sort (query # terms) st =
     (if query = [] then search_terms_loop e subreddit_name search_sort terms st
      else
        (let inner = search e (calls st) query subreddit_name TIME_FILTER_DEFAULT None search_sort;
             st' = fold collect (yielded inner) (st\<lparr>calls := calls inner\<rparr>)
         in case failure inner of
              Some err \<Rightarrow> st'\<lparr>failure := Some err\<rparr>
            | None \<Rightarrow> search_terms_loop e subreddit_name search_sort terms st'))"

definition search_for_multiple_terms ::
  "env \<Rightarrow> api_call list \<Rightarrow> string list \<Rightarrow> subreddits \<Rightarrow> string option \<Rightarrow> search_state" where
  "search_for_multiple_terms e history search_terms subreddit_name search_sort =
     search_terms_loop e subreddit_name search_sort search_terms
       \<lparr>seen_ids = {}, yielded = [], calls = history, failure = None\<rparr>"

section \<open>hatinh.py\<close>

text \<open>The class \<open>Game\<close>; \<open>game_url\<close> is its attribute \<open>url\<close>.\<close>

record game =
  gameId :: int
  name :: string
  simple_url :: string
  game_url :: "string option"

text \<open>
  \<open>Game.__init__\<close>. \<open>simple_url[-1]\<close> raises \<open>IndexError\<close> on the empty string.
\<close>

definition Game :: "env \<Rightarrow> int \<Rightarrow> string \<Rightarrow> string option \<Rightarrow> error + game" where
  "Game e gid nm u =
     (let url_parsed = urlparse e u;
          simple = fst url_parsed @ snd url_parsed
      in if simple = [] then Inl IndexError
         else Inr \<lparr> gameId = gid, name = nm,
                    simple_url = (if last simple = CHR ''/'' then butlast simple else simple),
                    game_url = u \<rparr>)"

text \<open>The class \<open>RedditAggregationData\<close>.\<close>

record reddit_aggregation_data =
  agg_gameId :: int
  agg_date :: string
  agg_comments :: int
  agg_submissions :: int
  agg_upvotes :: int
  agg_downvotes :: int
  date_of_request :: string

text \<open>
  \<open>zip(*rows)\<close> for a list of 4-tuples: no column at all when there is no row, the four
  columns otherwise.
\<close>

definition zip_star :: "(int \<times> int \<times> int \<times> int) list \<Rightarrow> int list list" where
  "zip_star rows =
     (if rows = [] then []
      else [map (\<lambda>(a, b, c, d). a) rows, map (\<lambda>(a, b, c, d). b) rows,
            map (\<lambda>(a, b, c, d). c) rows, map (\<lambda>(a, b, c, d). d) rows])"

text \<open>\<open>dict(pairs)\<close>: a later pair overrides an earlier one with the same key.\<close>

definition dict :: "('k \<times> 'v) list \<Rightarrow> ('k \<rightharpoonup> 'v)" where
  "dict kvs = map_of (rev kvs)"

text \<open>
  \<open>RedditAggregationData.__init__\<close>. The only caller passes the string \<open>submission.created\<close>
  as \<open>date\<close>, so \<open>str(date)\<close> is \<open>date\<close>. The four lookups \<open>gameData[...]\<close> are in the order
  of the source; each raises \<open>KeyError\<close> when the key is missing.
\<close>

definition RedditAggregationData ::
  "env \<Rightarrow> int \<Rightarrow> string \<Rightarrow> reddit_submission list \<Rightarrow> error + reddit_aggregation_data" where
  "RedditAggregationData e gid d submissions =
     (let types = [''submissions'', ''comments'', ''upvotes'', ''downvotes''];
          gameData = dict (zip types (map sum_list (zip_star
                       (map (\<lambda>s. (1, comments s, upvotes s, downvotes s)) submissions))))
      in case gameData ''comments'' of None \<Rightarrow> Inl KeyError | Some c \<Rightarrow>
         (case gameData ''submissions'' of None \<Rightarrow> Inl KeyError | Some n \<Rightarrow>
         (case gameData ''upvotes'' of None \<Rightarrow> Inl KeyError | Some u \<Rightarrow>
         (case gameData ''downvotes'' of None \<Rightarrow> Inl KeyError | Some dv \<Rightarrow>
            Inr \<lparr> agg_gameId = gid, agg_date = d, agg_comments = c, agg_submissions = n,
                  agg_upvotes = u, agg_downvotes = dv,
                  date_of_request = date_str (today e) \<rparr>))))"

text \<open>\<open>str.strip()\<close> (on the ASCII white space) and \<open>clean_subreddit_name\<close>.\<close>

definition isspace :: "char \<Rightarrow> bool" where
  "isspace c = (let n = (of_char c :: nat) in (9 \<le> n \<and> n \<le> 13) \<or> (28 \<le> n \<and> n \<le> 32))"

definition strip :: "string \<Rightarrow> string" where
  "strip s = rev (dropWhile isspace (rev (dropWhile isspace s)))"

definition clean_subreddit_name :: "string \<Rightarrow> string" where
  "clean_subreddit_name x = (let x' = strip x in if prefix ''r/'' x' then drop 2 x' else x')"

text \<open>\<open>sep.join(xs)\<close>.\<close>

fun join :: "string \<Rightarrow> string list \<Rightarrow> string" where
  "join sep [] = []"
| "join sep [x] = x"
| "join sep (x # y # ys) = x @ sep @ join sep (y # ys)"

text \<open>
  A \<open>defaultdict(list)\<close> in insertion order, and \<open>d[k].append(v)\<close> on it.
\<close>

type_synonym ('k, 'v) buckets = "('k \<times> 'v list) list"

fun bucket_append :: "'k \<Rightarrow> 'v \<Rightarrow> ('k, 'v) buckets \<Rightarrow> ('k, 'v) buckets" where
  "bucket_append k v [] = [(k, [v])]"
| "bucket_append k v ((k', vs) # rest) =
     (if k = k' then (k', vs @ [v]) # rest else (k', vs) # bucket_append k v rest)"

text \<open>
  The loop \<open>for d, submissions in list_of_submissions_by_date.items()\<close> of
  \<open>FetchRedditDataForGames\<close>; an exception of the constructor ends it.
\<close>

fun aggregate_buckets ::
  "env \<Rightarrow> int \<Rightarrow> (string, reddit_submission) buckets
     \<Rightarrow> (string, reddit_aggregation_data) buckets
     \<Rightarrow> error + (string, reddit_aggregation_data) buckets" where
  "aggregate_buckets e gid [] aggregate_data_by_date = Inr aggregate_data_by_date"
| "aggregate_buckets e gid ((d, submissions) # rest) aggregate_data_by_date =
     (case RedditAggregationData e gid d submissions of
        Inl err \<Rightarrow> Inl err
      | Inr a \<Rightarrow> aggregate_buckets e gid rest (bucket_append d a aggregate_data_by_date))"

text \<open>The loop \<open>for game in games\<close>; the calls made so far are threaded through.\<close>

fun games_loop ::
  "env \<Rightarrow> string \<Rightarrow> game list \<Rightarrow> api_call list \<Rightarrow> (string, reddit_aggregation_data) buckets
     \<Rightarrow> error + (string, reddit_aggregation_data) buckets" where
  "games_loop e subs [] history aggregate_data_by_date = Inr aggregate_data_by_date"
| "games_loop e subs (g # games) history aggregate_data_by_date =
     (let found = search_for_multiple_terms e history [name g, simple_url g] (Str subs) None
      in case failure found of
           Some err \<Rightarrow> Inl err
         | None \<Rightarrow>
            (let list_of_submissions_by_date =
                   fold (\<lambda>s. bucket_append (created s) s) (yielded found) []
             in case aggregate_buckets e (gameId g) list_of_submissions_by_date
                       aggregate_data_by_date of
                  Inl err \<Rightarrow> Inl err
                | Inr aggregate_data_by_date' \<Rightarrow>
                    games_loop e subs games (calls found) aggregate_data_by_date'))"

text \<open>
  \<open>FetchRedditDataForGames\<close>: the ordered dictionary it returns, as the list of its items.
  Reading the credentials and opening the session are outside the model.
\<close>

definition FetchRedditDataForGames ::
  "env \<Rightarrow> string list \<Rightarrow> game list
     \<Rightarrow> error + (string, reddit_aggregation_data) buckets" where
  "FetchRedditDataForGames e subs games =
     (case games_loop e (join ''+'' (map clean_subreddit_name subs)) games [] [] of
        Inl err \<Rightarrow> Inl err
      | Inr aggregate_data_by_date \<Rightarrow> Inr (sort_key fst aggregate_data_by_date))"

text \<open>
  The windowed fetchers. \<open>collection_days\<close> is the dictionary \<open>{'D': 1, 'W': 7, 'M': 30,
  'Y': 365}\<close> with its \<open>get\<close>. A fetcher returns a list, so an exception of a listing leaves
  no result. Reading the credentials and opening the session are outside the model.
\<close>

definition collection_days :: "string \<Rightarrow> nat option" where
  "collection_days collection_period =
     dict [(''D'', 1), (''W'', 7), (''M'', 30), (''Y'', 365)] collection_period"

record fetch_state =
  seen :: "string set"
  results :: "reddit_submission list"
  fetch_calls :: "api_call list"

text \<open>
  The body of the loop over one listing: \<open>submission.created > filter_date\<close> compares the
  two strings.
\<close>

definition keep :: "env \<Rightarrow> string \<Rightarrow> submission \<Rightarrow> fetch_state \<Rightarrow> fetch_state" where
  "keep e filter_date s st =
     (if p_id s \<notin> seen st then
        (let st' = st\<lparr>seen := insert (p_id s) (seen st)\<rparr>;
             r = RedditSubmission e s
         in if filter_date < created r then st'\<lparr>results := results st' @ [r]\<rparr> else st')
      else st)"

definition keep_item :: "env \<Rightarrow> string \<Rightarrow> item \<Rightarrow> fetch_state \<Rightarrow> fetch_state" where
  "keep_item e filter_date x st =
     (case x of Comment c \<Rightarrow> st | Submission s \<Rightarrow> keep e filter_date s st)"

fun fetch_subreddits ::
  "env \<Rightarrow> string \<Rightarrow> int option \<Rightarrow> string list \<Rightarrow> fetch_state \<Rightarrow> error + fetch_state" where
  "fetch_subreddits e filter_date limit [] st = Inr st"
| "fetch_subreddits e filter_date limit (subreddit_name # names) st =
     (let cs = fetch_calls st @ [SubredditNew (clean_subreddit_name subreddit_name) limit];
          listing = subreddit_new e cs;
          st' = fold (keep e filter_date) (fst listing) (st\<lparr>fetch_calls := cs\<rparr>)
      in if snd listing then Inl RetrievalFailure
         else fetch_subreddits e filter_date limit names st')"

fun fetch_users ::
  "env \<Rightarrow> string \<Rightarrow> int option \<Rightarrow> string list \<Rightarrow> fetch_state \<Rightarrow> error + fetch_state" where
  "fetch_users e filter_date limit [] st = Inr st"
| "fetch_users e filter_date limit (user # users) st =
     (let cs = fetch_calls st @ [RedditorNew user limit];
          listing = redditor_new e cs;
          st' = fold (keep_item e filter_date) (fst listing) (st\<lparr>fetch_calls := cs\<rparr>)
      in if snd listing then Inl RetrievalFailure
         else fetch_users e filter_date limit users st')"

text \<open>
  The cutoff \<open>str(datetime.date.today() - datetime.timedelta(days=days))\<close>, after the
  \<open>assert\<close> on the period.
\<close>

definition filter_date_of :: "env \<Rightarrow> string \<Rightarrow> error + string" where
  "filter_date_of e collection_period =
     (if collection_period \<notin> set [''D'', ''W'', ''M'', ''Y''] then Inl AssertionError
      else case collection_days collection_period of
             None \<Rightarrow> Inl TypeError
           | Some days \<Rightarrow> Inr (date_str (minus_days e (today e) days)))"

definition FetchRedditSubmissionsInSubreddits ::
  "env \<Rightarrow> string list \<Rightarrow> string \<Rightarrow> int option \<Rightarrow> error + reddit_submission list" where
  "FetchRedditSubmissionsInSubreddits e subs collection_period limit =
     (case filter_date_of e collection_period of
        Inl err \<Rightarrow> Inl err
      | Inr filter_date \<Rightarrow>
          (case fetch_subreddits e filter_date limit subs
                  \<lparr>seen = {}, results = [], fetch_calls = []\<rparr> of
             Inl err \<Rightarrow> Inl err
           | Inr st \<Rightarrow> Inr (results st)))"

definition FetchRedditSubmissionsByUsers ::
  "env \<Rightarrow> string list \<Rightarrow> string \<Rightarrow> int option \<Rightarrow> error + reddit_submission list" where
  "FetchRedditSubmissionsByUsers e users collection_period limit =
     (case filter_date_of e collection_period of
        Inl err \<Rightarrow> Inl err
      | Inr filter_date \<Rightarrow>
          (case fetch_users e filter_date limit users
                  \<lparr>seen = {}, results = [], fetch_calls = []\<rparr> of
             Inl err \<Rightarrow> Inl err
           | Inr st \<Rightarrow> Inr (results st)))"

section \<open>Concrete inputs\<close>

text \<open>
  A small platform on which the definitions are run. Its time stamps count days of March
  2024, its float division is the exact one, \<open>today\<close> is 2024-03-20, and its search returns
  the same listing to every call. Its \<open>urlparse\<close> knows two URLs; for no URL at all it gives
  the texts of the empty byte strings that the library returns then, and for every other
  text an empty host and an empty path.
\<close>

definition post :: "string \<Rightarrow> string \<Rightarrow> string \<Rightarrow> int \<Rightarrow> int \<Rightarrow> rat \<Rightarrow> rat \<Rightarrow> submission" where
  "post i ttl body sc n ratio ts =
     \<lparr> p_author = Some ''alice'', p_subreddit = ''games'', p_created_utc = ts,
       p_title = ttl, p_selftext = body, p_permalink = ''/r/games/comments/'' @ i,
       p_url = ''https://example.com/'' @ i, p_score = sc, p_num_comments = n, p_id = i,
       p_upvote_ratio = ratio \<rparr>"

definition cat_post :: submission where
  "cat_post = post ''p1'' ''My Cat plays'' ''no text'' 10 2 (1 / 2) (86400 * 19)"

definition body_post :: submission where
  "body_post = post ''p2'' ''A question'' ''is a CAT a gamer'' 4 1 (4 / 5) (86400 * 19)"

definition category_post :: submission where
  "category_post = post ''p3'' ''Category theory'' ''of lists'' 3 0 1 (86400 * 18)"

definition dog_post :: submission where
  "dog_post = post ''p4'' ''Dogs'' ''only dogs'' 7 5 1 (86400 * 11)"

definition sunk_post :: submission where
  "sunk_post = post ''p5'' ''Bad idea'' ''cat'' (- 1) 3 (3 / 10) (86400 * 19)"

definition old_post :: submission where
  "old_post = post ''p6'' ''Old news'' ''cat'' 2 0 1 (86400 * 18)"

definition demo_listing :: "submission list" where
  "demo_listing = [cat_post, dog_post, body_post, cat_post, category_post]"

definition demo_today :: pydate where
  "demo_today = \<lparr>year = 2024, month = 3, day = 20\<rparr>"

definition demo_minus_days :: "pydate \<Rightarrow> nat \<Rightarrow> pydate" where
  "demo_minus_days d n =
     (if n = 1 then \<lparr>year = 2024, month = 3, day = 19\<rparr>
      else if n = 7 then \<lparr>year = 2024, month = 3, day = 13\<rparr>
      else if n = 30 then \<lparr>year = 2024, month = 2, day = 19\<rparr>
      else \<lparr>year = 2023, month = 3, day = 21\<rparr>)"

definition demo_urlparse :: "string option \<Rightarrow> string \<times> string" where
  "demo_urlparse u =
     (if u = None then ([CHR ''b'', CHR 0x27, CHR 0x27], [CHR ''b'', CHR 0x27, CHR 0x27])
      else if u = Some ''https://example.com/path/'' then (''example.com'', ''/path/'')
      else if u = Some ''http://example.com/path'' then (''example.com'', ''/path'')
      else ('''', ''''))"

definition demo_env :: env where
  "demo_env =
     \<lparr> subreddit_search = (\<lambda>cs. (demo_listing, False)),
       subreddit_new = (\<lambda>cs. ([cat_post, old_post, dog_post, cat_post, sunk_post], False)),
       redditor_new = (\<lambda>cs. ([Submission body_post, Comment ''c1'', Submission old_post,
                                 Submission body_post, Submission cat_post], False)),
       fromtimestamp = (\<lambda>t. \<lparr>year = 2024, month = 3, day = 1 + nat (\<lfloor>t / 86400\<rfloor> mod 31)\<rparr>),
       truediv = (\<lambda>sc ratio. of_int sc / ratio),
       today = demo_today,
       minus_days = demo_minus_days,
       urlparse = demo_urlparse \<rparr>"

text \<open>
  A platform whose first search of subreddit \<open>a\<close> returns 250 submissions with 250 ids, and
  every other search nothing.
\<close>

definition bulk_listing :: "submission list" where
  "bulk_listing = map (\<lambda>n. post (replicate n (CHR ''x'')) ''cat'' '''' 1 0 1 0) [1..<251]"

definition bulk_env :: env where
  "bulk_env = demo_env \<lparr> subreddit_search :=
     (\<lambda>cs. if cs = [Search [CHR 0x22, CHR ''c'', CHR ''a'', CHR ''t'', CHR 0x22] ''a'' ''relevance'' ''year'' None]
            then (bulk_listing, False) else ([], False)) \<rparr>"

definition demo_records :: "reddit_submission list" where
  "demo_records = [RedditSubmission demo_env cat_post, RedditSubmission demo_env body_post]"

definition demo_aggregate :: reddit_aggregation_data where
  "demo_aggregate =
     \<lparr> agg_gameId = 1, agg_date = ''2024-03-20'', agg_comments = 3, agg_submissions = 2,
       agg_upvotes = 14, agg_downvotes = 11, date_of_request = ''2024-03-20'' \<rparr>"

definition sunk_aggregate :: reddit_aggregation_data where
  "sunk_aggregate =
     \<lparr> agg_gameId = 1, agg_date = ''2024-03-20'', agg_comments = 3, agg_submissions = 1,
       agg_upvotes = - 1, agg_downvotes = - 2, date_of_request = ''2024-03-20'' \<rparr>"

definition demo_game :: game where
  "demo_game = \<lparr> gameId = 1, name = ''Cat'', simple_url = '''', game_url = None \<rparr>"

section \<open>Invariants of the loops\<close>

definition matches :: "string \<Rightarrow> reddit_submission \<Rightarrow> bool" where
  "matches q r \<longleftrightarrow> sublist (lower q) (lower (title r)) \<or> sublist (lower q) (lower (text' r))"

text \<open>The yielded records have pairwise different ids, all of them in the set of seen ids.\<close>

definition ids_tracked :: "search_state \<Rightarrow> bool" where
  "ids_tracked st \<longleftrightarrow> distinct (map id' (yielded st)) \<and> id' ` set (yielded st) \<subseteq> seen_ids st"

definition results_tracked :: "fetch_state \<Rightarrow> bool" where
  "results_tracked st \<longleftrightarrow> distinct (map id' (results st)) \<and> id' ` set (results st) \<subseteq> seen st"

text \<open>The last \<open>w\<close> decimal digits of a number, the most significant first.\<close>

fun fixed_width :: "nat \<Rightarrow> nat \<Rightarrow> string" where
  "fixed_width 0 n = []"
| "fixed_width (Suc w) n = fixed_width w (n div 10) @ [digit_char n]"

text \<open>The results are conversions of submissions, with a date text after the cutoff text.\<close>

definition results_recent :: "env \<Rightarrow> string \<Rightarrow> fetch_state \<Rightarrow> bool" where
  "results_recent e filter_date st \<longleftrightarrow>
     (\<forall>r\<in>set (results st). filter_date < created r \<and> (\<exists>s. r = RedditSubmission e s))"

text \<open>Every aggregate of the buckets counts at least one submission.\<close>

definition populated :: "(string, reddit_aggregation_data) buckets \<Rightarrow> bool" where
  "populated agg \<longleftrightarrow> (\<forall>kv\<in>set agg. \<forall>a\<in>set (snd kv). 1 \<le> agg_submissions a)"

section \<open>What every loop preserves\<close>

lemma fold_invariant:
  assumes "P s" and "\<And>x s. P s \<Longrightarrow> P (f x s)"
  shows "P (fold f xs s)"
  using assms by (induction xs arbitrary: s) auto

text \<open>
  A property of the generator state that each visit of a submission preserves, and that
  does not depend on the calls made nor on the failure, holds at the end of \<open>search\<close>.
\<close>

lemma search_listing_invariant:
  assumes "P st"
    and step: "\<And>s st. P st \<Longrightarrow> P (visit e q s st)"
    and calls: "\<And>st cs. P st \<Longrightarrow> P (st\<lparr>calls := cs\<rparr>)"
    and fail: "\<And>st err. P st \<Longrightarrow> err \<in> {RetrievalFailure, IndexError}
                 \<Longrightarrow> P (st\<lparr>failure := Some err\<rparr>)"
  shows "P (search_listing e q sq sname srt tf lmt st)"
proof -
  have "P (fold (visit e q) xs (st\<lparr>calls := cs\<rparr>))" for xs cs
    by (rule fold_invariant[where P = P]) (use assms in auto)
  then show ?thesis
    using fail[of _ RetrievalFailure] by (simp add: search_listing_def Let_def)
qed

lemma remaining_sorts_invariant:
  assumes "P st"
    and step: "\<And>s st. P st \<Longrightarrow> P (visit e q s st)"
    and calls: "\<And>st cs. P st \<Longrightarrow> P (st\<lparr>calls := cs\<rparr>)"
    and fail: "\<And>st err. P st \<Longrightarrow> err \<in> {RetrievalFailure, IndexError}
                 \<Longrightarrow> P (st\<lparr>failure := Some err\<rparr>)"
  shows "P (remaining_sorts e q sq sname tf lmt sorts st)"
  using assms(1)
proof (induction sorts arbitrary: st)
  case Nil
  then show ?case by simp
next
  case (Cons srt sorts)
  have "P (search_listing e q sq sname srt tf lmt st)"
    by (rule search_listing_invariant[OF Cons.prems step calls fail])
  with Cons.IH show ?case by (simp add: Let_def)
qed

lemma search_subreddit_invariant:
  assumes "P st"
    and step: "\<And>s st. P st \<Longrightarrow> P (visit e q s st)"
    and calls: "\<And>st cs. P st \<Longrightarrow> P (st\<lparr>calls := cs\<rparr>)"
    and fail: "\<And>st err. P st \<Longrightarrow> err \<in> {RetrievalFailure, IndexError}
                 \<Longrightarrow> P (st\<lparr>failure := Some err\<rparr>)"
  shows "P (search_subreddit e q sq sorts tf lmt sname st)"
proof (cases sorts)
  case Nil
  with assms(1) fail[of st IndexError] show ?thesis by (simp add: search_subreddit_def)
next
  case (Cons srt rest)
  have *: "P (search_listing e q sq sname srt tf lmt st)"
    by (rule search_listing_invariant[OF assms(1) step calls fail])
  have "P (remaining_sorts e q sq sname tf lmt rest (search_listing e q sq sname srt tf lmt st))"
    by (rule remaining_sorts_invariant[OF * step calls fail])
  with * Cons show ?thesis
    by (simp add: search_subreddit_def Let_def)
qed

lemma search_subreddits_invariant:
  assumes "P st"
    and step: "\<And>s st. P st \<Longrightarrow> P (visit e q s st)"
    and calls: "\<And>st cs. P st \<Longrightarrow> P (st\<lparr>calls := cs\<rparr>)"
    and fail: "\<And>st err. P st \<Longrightarrow> err \<in> {RetrievalFailure, IndexError}
                 \<Longrightarrow> P (st\<lparr>failure := Some err\<rparr>)"
  shows "P (search_subreddits e q sq sorts tf lmt names st)"
  using assms(1)
proof (induction names arbitrary: st)
  case Nil
  then show ?case by simp
next
  case (Cons sname names)
  have "P (search_subreddit e q sq sorts tf lmt sname st)"
    by (rule search_subreddit_invariant[OF Cons.prems step calls fail])
  with Cons.IH show ?case by (simp add: Let_def)
qed

lemma search_invariant:
  assumes "P \<lparr>seen_ids = {}, yielded = [], calls = h, failure = None\<rparr>"
    and step: "\<And>s st. P st \<Longrightarrow> P (visit e q s st)"
    and calls: "\<And>st cs. P st \<Longrightarrow> P (st\<lparr>calls := cs\<rparr>)"
    and fail: "\<And>st err. P st \<Longrightarrow> err \<in> {RetrievalFailure, IndexError}
                 \<Longrightarrow> P (st\<lparr>failure := Some err\<rparr>)"
  shows "P (search e h q subs tf lmt so)"
  unfolding search_def Let_def
  by (rule search_subreddits_invariant[OF assms(1) step calls fail])

lemma visit_failure [simp]: "failure (visit e q s st) = failure st"
  by (simp add: visit_def Let_def)

lemma visit_calls [simp]: "calls (visit e q s st) = calls st"
  by (simp add: visit_def Let_def)

lemma search_failure_kinds:
  "failure (search e h q subs tf lmt so) \<in> {None, Some RetrievalFailure, Some IndexError}"
  by (rule search_invariant[where P = "\<lambda>st. failure st \<in> {None, Some RetrievalFailure, Some IndexError}"])
     auto

text \<open>The same for \<open>search_for_multiple_terms\<close> and its inner loop body \<open>collect\<close>.\<close>

lemma search_terms_loop_invariant:
  assumes "P st"
    and step: "\<And>r st. P st \<Longrightarrow> P (collect r st)"
    and calls: "\<And>st cs. P st \<Longrightarrow> P (st\<lparr>calls := cs\<rparr>)"
    and fail: "\<And>st err. P st \<Longrightarrow> err \<in> {RetrievalFailure, IndexError}
                 \<Longrightarrow> P (st\<lparr>failure := Some err\<rparr>)"
  shows "P (search_terms_loop e subs so terms st)"
  using assms(1)
proof (induction terms arbitrary: st)
  case Nil
  then show ?case by simp
next
  case (Cons query terms)
  show ?case
  proof (cases "query = []")
    case True
    with Cons show ?thesis by simp
  next
    case False
    let ?inner = "search e (calls st) query subs TIME_FILTER_DEFAULT None so"
    let ?st' = "fold collect (yielded ?inner) (st\<lparr>calls := calls ?inner\<rparr>)"
    have *: "P ?st'"
      by (rule fold_invariant[where P = P]) (use Cons.prems step calls in auto)
    show ?thesis
    proof (cases "failure ?inner")
      case None
      with False Cons.IH[OF *] show ?thesis by (simp add: Let_def)
    next
      case (Some err)
      with search_failure_kinds[of e "calls st" query subs TIME_FILTER_DEFAULT None so]
      have "err \<in> {RetrievalFailure, IndexError}" by auto
      from fail[OF * this] Some False show ?thesis by (simp add: Let_def)
    qed
  qed
qed

text \<open>The same for the two windowed fetchers, when they return.\<close>

lemma fetch_subreddits_invariant:
  assumes "fetch_subreddits e fd lmt names st = Inr st'" and "P st"
    and step: "\<And>s st. P st \<Longrightarrow> P (keep e fd s st)"
    and calls: "\<And>st cs. P st \<Longrightarrow> P (st\<lparr>fetch_calls := cs\<rparr>)"
  shows "P st'"
  using assms(1,2)
proof (induction names arbitrary: st)
  case Nil
  then show ?case by simp
next
  case (Cons sname names)
  let ?cs = "fetch_calls st @ [SubredditNew (clean_subreddit_name sname) lmt]"
  let ?st = "fold (keep e fd) (fst (subreddit_new e ?cs)) (st\<lparr>fetch_calls := ?cs\<rparr>)"
  have "P ?st"
    by (rule fold_invariant[where P = P]) (use Cons.prems step calls in auto)
  moreover from Cons.prems(1) have "fetch_subreddits e fd lmt names ?st = Inr st'"
    by (simp add: Let_def split: if_splits)
  ultimately show ?case by (rule Cons.IH[rotated])
qed

lemma keep_item_invariant:
  assumes "P st" and "\<And>s st. P st \<Longrightarrow> P (keep e fd s st)"
  shows "P (keep_item e fd x st)"
  using assms by (cases x) (simp_all add: keep_item_def)

lemma fetch_users_invariant:
  assumes "fetch_users e fd lmt users st = Inr st'" and "P st"
    and step: "\<And>s st. P st \<Longrightarrow> P (keep e fd s st)"
    and calls: "\<And>st cs. P st \<Longrightarrow> P (st\<lparr>fetch_calls := cs\<rparr>)"
  shows "P st'"
  using assms(1,2)
proof (induction users arbitrary: st)
  case Nil
  then show ?case by simp
next
  case (Cons user users)
  let ?cs = "fetch_calls st @ [RedditorNew user lmt]"
  let ?st = "fold (keep_item e fd) (fst (redditor_new e ?cs)) (st\<lparr>fetch_calls := ?cs\<rparr>)"
  have "P ?st"
    by (rule fold_invariant[where P = P])
       (use Cons.prems step calls keep_item_invariant[where P = P] in auto)
  moreover from Cons.prems(1) have "fetch_users e fd lmt users ?st = Inr st'"
    by (simp add: Let_def split: if_splits)
  ultimately show ?case by (rule Cons.IH[rotated])
qed

section \<open>Exact matches\<close>

lemma visit_matches:
  assumes "\<forall>r\<in>set (yielded st). matches q r"
  shows "\<forall>r\<in>set (yielded (visit e q s st)). matches q r"
  using assms
  by (auto simp: visit_def Let_def query_in_submission_def matches_def RedditSubmission_def)

text \<open>
  C1. Every record yielded by \<open>Reddit.search\<close>, whatever the listings of the platform hold
  and whether or not one of them raises, has the lower-cased query as a substring of its
  lower-cased title or of its lower-cased text.
\<close>

theorem search_yields_matches:
  "\<forall>r \<in> set (yielded (search e history q subs time_filter limit search_sort)).
     sublist (lower q) (lower (title r)) \<or> sublist (lower q) (lower (text' r))"
proof -
  have "\<forall>r\<in>set (yielded (search e history q subs time_filter limit search_sort)). matches q r"
    by (rule search_invariant[where P = "\<lambda>st. \<forall>r\<in>set (yielded st). matches q r"])
       (use visit_matches in auto)
  then show ?thesis by (simp add: matches_def)
qed

theorem search_yields_matches_witness:
  "RedditSubmission demo_env body_post
     \<in> set (yielded (search demo_env [] ''Cat'' (Lst [''a'', ''b'']) ''year'' None None))
   \<and> sublist (lower ''Cat'') (lower (text' (RedditSubmission demo_env body_post)))"
proof -
  have mem: "RedditSubmission demo_env body_post
     \<in> set (yielded (search demo_env [] ''Cat'' (Lst [''a'', ''b'']) ''year'' None None))"
    by code_simp
  have "\<not> sublist (lower ''Cat'') (lower (title (RedditSubmission demo_env body_post)))"
    by code_simp
  with mem search_yields_matches[of demo_env "[]" "''Cat''" "Lst [''a'', ''b'']" "''year''" None None]
  show ?thesis by blast
qed

section \<open>Unique ids\<close>

lemma visit_ids_tracked: "ids_tracked st \<Longrightarrow> ids_tracked (visit e q s st)"
  by (auto simp: ids_tracked_def visit_def Let_def RedditSubmission_def)

lemma collect_ids_tracked: "ids_tracked st \<Longrightarrow> ids_tracked (collect r st)"
  by (auto simp: ids_tracked_def collect_def)

lemma keep_results_tracked: "results_tracked st \<Longrightarrow> results_tracked (keep e fd s st)"
  by (auto simp: results_tracked_def keep_def Let_def RedditSubmission_def)

lemma search_ids_tracked: "ids_tracked (search e h q subs tf lmt so)"
  by (rule search_invariant[where P = ids_tracked])
     (simp_all add: visit_ids_tracked, simp_all add: ids_tracked_def)

lemma search_for_multiple_terms_ids_tracked:
  "ids_tracked (search_for_multiple_terms e h terms subs so)"
  unfolding search_for_multiple_terms_def
  by (rule search_terms_loop_invariant[where P = ids_tracked])
     (simp_all add: collect_ids_tracked, simp_all add: ids_tracked_def)

lemma FetchRedditSubmissionsInSubreddits_tracked:
  assumes "FetchRedditSubmissionsInSubreddits e subs p lmt = Inr rs"
  shows "distinct (map id' rs)"
proof -
  from assms obtain fd st where
    st: "fetch_subreddits e fd lmt subs \<lparr>seen = {}, results = [], fetch_calls = []\<rparr> = Inr st"
    and rs: "rs = results st"
    by (auto simp: FetchRedditSubmissionsInSubreddits_def split: sum.splits)
  have "results_tracked st"
    by (rule fetch_subreddits_invariant[OF st, where P = results_tracked])
       (simp_all add: keep_results_tracked, simp_all add: results_tracked_def)
  with rs show ?thesis by (simp add: results_tracked_def)
qed

lemma FetchRedditSubmissionsByUsers_tracked:
  assumes "FetchRedditSubmissionsByUsers e users p lmt = Inr rs"
  shows "distinct (map id' rs)"
proof -
  from assms obtain fd st where
    st: "fetch_users e fd lmt users \<lparr>seen = {}, results = [], fetch_calls = []\<rparr> = Inr st"
    and rs: "rs = results st"
    by (auto simp: FetchRedditSubmissionsByUsers_def split: sum.splits)
  have "results_tracked st"
    by (rule fetch_users_invariant[OF st, where P = results_tracked])
       (simp_all add: keep_results_tracked, simp_all add: results_tracked_def)
  with rs show ?thesis by (simp add: results_tracked_def)
qed

text \<open>
  C2. Within one call of \<open>Reddit.search\<close>, of \<open>Reddit.search_for_multiple_terms\<close>, of
  \<open>FetchRedditSubmissionsInSubreddits\<close> or of \<open>FetchRedditSubmissionsByUsers\<close>, no two records
  yielded or returned have the same id, whatever the listings of the platform repeat.
\<close>

theorem ids_unique_per_call:
  "distinct (map id' (yielded (search e history q subs time_filter limit search_sort)))
   \<and> distinct (map id' (yielded (search_for_multiple_terms e history terms subs search_sort)))
   \<and> (\<forall>rs. FetchRedditSubmissionsInSubreddits e names period limit = Inr rs
         \<longrightarrow> distinct (map id' rs))
   \<and> (\<forall>rs. FetchRedditSubmissionsByUsers e users period limit = Inr rs
         \<longrightarrow> distinct (map id' rs))"
  using search_ids_tracked[of e history q subs time_filter limit search_sort]
    search_for_multiple_terms_ids_tracked[of e history terms subs search_sort]
    FetchRedditSubmissionsInSubreddits_tracked[of e names period limit]
    FetchRedditSubmissionsByUsers_tracked[of e users period limit]
  by (simp add: ids_tracked_def)

theorem ids_unique_per_call_witness:
  "FetchRedditSubmissionsInSubreddits demo_env [''r/games'', ''games''] ''W'' None
     = Inr (map (RedditSubmission demo_env) [cat_post, old_post, sunk_post])
   \<and> distinct (map id' (map (RedditSubmission demo_env) [cat_post, old_post, sunk_post]))
   \<and> FetchRedditSubmissionsByUsers demo_env [''alice'', ''bob''] ''W'' None
     = Inr (map (RedditSubmission demo_env) [body_post, old_post, cat_post])
   \<and> distinct (map id' (map (RedditSubmission demo_env) [body_post, old_post, cat_post]))"
proof -
  have a: "FetchRedditSubmissionsInSubreddits demo_env [''r/games'', ''games''] ''W'' None
     = Inr (map (RedditSubmission demo_env) [cat_post, old_post, sunk_post])"
    by code_simp
  have b: "FetchRedditSubmissionsByUsers demo_env [''alice'', ''bob''] ''W'' None
     = Inr (map (RedditSubmission demo_env) [body_post, old_post, cat_post])"
    by code_simp
  from a b ids_unique_per_call[where e = demo_env and names = "[''r/games'', ''games'']"
      and period = "''W''" and limit = None and users = "[''alice'', ''bob'']"]
  show ?thesis by blast
qed

section \<open>The downvote estimate\<close>

lemma py_int_floor: "py_int x = (if 0 \<le> x \<or> x \<in> \<int> then \<lfloor>x\<rfloor> else \<lfloor>x\<rfloor> + 1)"
proof (cases "x \<in> \<int>")
  case True
  then show ?thesis by (auto simp: py_int_def ceiling_altdef)
next
  case False
  then have "x \<noteq> of_int \<lfloor>x\<rfloor>" by (metis Ints_of_int)
  with False show ?thesis by (simp add: py_int_def ceiling_altdef)
qed

text \<open>
  C4, as the code has it. The estimate is 0 when the ratio is 0; otherwise it is the
  quotient truncated towards zero, minus the score: the floor of the quotient minus the
  score when the quotient is non-negative or integral, and one more than that when the
  quotient is negative and not integral.
\<close>

theorem downvotes_truncates:
  "downvotes (RedditSubmission e s) =
     (if p_upvote_ratio s = 0 then 0
      else if 0 \<le> truediv e (p_score s) (p_upvote_ratio s)
              \<or> truediv e (p_score s) (p_upvote_ratio s) \<in> \<int>
           then \<lfloor>truediv e (p_score s) (p_upvote_ratio s)\<rfloor> - p_score s
           else \<lfloor>truediv e (p_score s) (p_upvote_ratio s)\<rfloor> + 1 - p_score s)"
  by (simp add: RedditSubmission_def py_int_floor)

text \<open>
  C4 as stated fails for a negative score: with score -1 and ratio 0.3 the quotient is
  about -3.33, the code gives -3 - (-1) = -2, the floor gives -4 - (-1) = -3.
\<close>

theorem downvotes_floor_counterexample:
  "p_upvote_ratio sunk_post \<noteq> 0
   \<and> downvotes (RedditSubmission demo_env sunk_post) = - 2
   \<and> \<lfloor>truediv demo_env (p_score sunk_post) (p_upvote_ratio sunk_post)\<rfloor> - p_score sunk_post = - 3"
  by code_simp

section \<open>Entities\<close>

lemma Game_raises_iff:
  "Game e gid nm u = Inl IndexError \<longleftrightarrow> fst (urlparse e u) = [] \<and> snd (urlparse e u) = []"
  by (simp add: Game_def Let_def)

text \<open>
  C5 on the code. A URL whose host and path are both empty makes \<open>Game.__init__\<close> raise
  \<open>IndexError\<close> at \<open>simple_url[-1]\<close>: no entity is constructed. Without a URL the entity is
  constructed, with the six characters \<open>b''b''\<close> as its \<open>simple_url\<close>, not the empty string.
\<close>

theorem Game_empty_url_raises:
  "urlparse demo_env (Some '''') = ('''', '''')
   \<and> Game demo_env 1 ''Doom'' (Some '''') = Inl IndexError
   \<and> Game demo_env 1 ''Doom'' None =
       Inr \<lparr> gameId = 1, name = ''Doom'',
             simple_url = [CHR ''b'', CHR 0x27, CHR 0x27, CHR ''b'', CHR 0x27, CHR 0x27],
             game_url = None \<rparr>"
  by code_simp

section \<open>Aggregation\<close>

lemma ball_set_map_iff: "(\<forall>x\<in>set xs. P (f x)) \<longleftrightarrow> (\<forall>y\<in>set (map f xs). P y)"
  by simp

lemma sum_list_ones: "sum_list (map (\<lambda>s. 1) xs) = int (length xs)"
  by (induction xs) auto

lemma RedditAggregationData_empty [simp]: "RedditAggregationData e gid d [] = Inl KeyError"
  by (simp add: RedditAggregationData_def zip_star_def dict_def)

lemma RedditAggregationData_nonempty:
  assumes "subs \<noteq> []"
  shows "RedditAggregationData e gid d subs =
     Inr \<lparr> agg_gameId = gid, agg_date = d,
           agg_comments = sum_list (map comments subs),
           agg_submissions = int (length subs),
           agg_upvotes = sum_list (map upvotes subs),
           agg_downvotes = sum_list (map downvotes subs),
           date_of_request = date_str (today e) \<rparr>"
  using assms
  by (simp add: RedditAggregationData_def zip_star_def dict_def comp_def sum_list_ones)

text \<open>
  C6 as stated fails: one submission with score -1 gives an aggregate whose sums of
  upvotes and of downvotes are negative.
\<close>

theorem aggregate_nonneg_counterexample:
  "RedditAggregationData demo_env 1 ''2024-03-20'' [RedditSubmission demo_env sunk_post]
     = Inr sunk_aggregate
   \<and> agg_upvotes sunk_aggregate < 0 \<and> agg_downvotes sunk_aggregate < 0"
  by code_simp

text \<open>
  C6, amended. The number of submissions of an aggregate is at least 1, and each of the
  three sums is non-negative when the summed field is non-negative in every record.
\<close>

theorem aggregate_signs:
  assumes "RedditAggregationData e gid d subs = Inr a"
  shows "1 \<le> agg_submissions a
     \<and> ((\<forall>s\<in>set subs. 0 \<le> comments s) \<longrightarrow> 0 \<le> agg_comments a)
     \<and> ((\<forall>s\<in>set subs. 0 \<le> upvotes s) \<longrightarrow> 0 \<le> agg_upvotes a)
     \<and> ((\<forall>s\<in>set subs. 0 \<le> downvotes s) \<longrightarrow> 0 \<le> agg_downvotes a)"
proof -
  from assms have ne: "subs \<noteq> []" by auto
  then have "1 \<le> length subs" by (cases subs) auto
  with assms RedditAggregationData_nonempty[OF ne, of e gid d] show ?thesis
    by (auto intro!: sum_list_nonneg)
qed

theorem aggregate_signs_witness:
  "RedditAggregationData demo_env 1 ''2024-03-20'' demo_records = Inr demo_aggregate
   \<and> map comments demo_records = [2, 1]
   \<and> map upvotes demo_records = [10, 4]
   \<and> map downvotes demo_records = [10, 1]
   \<and> 1 \<le> agg_submissions demo_aggregate \<and> 0 \<le> agg_comments demo_aggregate
   \<and> 0 \<le> agg_upvotes demo_aggregate \<and> 0 \<le> agg_downvotes demo_aggregate"
proof -
  have a: "RedditAggregationData demo_env 1 ''2024-03-20'' demo_records = Inr demo_aggregate"
    by code_simp
  have b: "map comments demo_records = [2, 1]" "map upvotes demo_records = [10, 4]"
    "map downvotes demo_records = [10, 1]"
    by code_simp+
  have "\<forall>s\<in>set demo_records. 0 \<le> comments s" "\<forall>s\<in>set demo_records. 0 \<le> upvotes s"
    "\<forall>s\<in>set demo_records. 0 \<le> downvotes s"
    unfolding ball_set_map_iff by (simp_all only: b) simp_all
  with aggregate_signs[OF a] a b show ?thesis by blast
qed

text \<open>
  C7. For a non-empty list of records the aggregate holds the number of records and the
  sums of their comment counts, of their scores and of their downvote estimates.
\<close>

theorem aggregate_sums:
  assumes "subs \<noteq> []"
  shows "RedditAggregationData e gid d subs =
     Inr \<lparr> agg_gameId = gid, agg_date = d,
           agg_comments = sum_list (map comments subs),
           agg_submissions = int (length subs),
           agg_upvotes = sum_list (map upvotes subs),
           agg_downvotes = sum_list (map downvotes subs),
           date_of_request = date_str (today e) \<rparr>"
  using assms by (rule RedditAggregationData_nonempty)

text \<open>
  The example of the specification: (comments 2, score 10, ratio 0.5) and (comments 1,
  score 4, ratio 0.8) give 2 submissions, 3 comments, 14 upvotes, 11 downvotes.
\<close>

theorem aggregate_sums_witness:
  "demo_records \<noteq> []
   \<and> map (\<lambda>r. (comments r, upvotes r, downvotes r)) demo_records = [(2, 10, 10), (1, 4, 1)]
   \<and> RedditAggregationData demo_env 1 ''2024-03-20'' demo_records =
       Inr \<lparr> agg_gameId = 1, agg_date = ''2024-03-20'', agg_comments = 3, agg_submissions = 2,
             agg_upvotes = 14, agg_downvotes = 11, date_of_request = ''2024-03-20'' \<rparr>"
proof -
  have ne: "demo_records \<noteq> []" by code_simp
  have fields: "map (\<lambda>r. (comments r, upvotes r, downvotes r)) demo_records
      = [(2, 10, 10), (1, 4, 1)]"
    by code_simp
  have sums: "sum_list (map comments demo_records) = 3" "int (length demo_records) = 2"
    "sum_list (map upvotes demo_records) = 14" "sum_list (map downvotes demo_records) = 11"
    "date_str (today demo_env) = ''2024-03-20''"
    by code_simp+
  from aggregate_sums[OF ne, of demo_env 1 "''2024-03-20''"] ne fields sums
  show ?thesis by simp
qed

section \<open>No aggregate without submissions\<close>

lemma bucket_append_values:
  assumes "\<forall>kv\<in>set b. P (snd kv)" and "P [v]" and "\<And>vs. P vs \<Longrightarrow> P (vs @ [v])"
  shows "\<forall>kv\<in>set (bucket_append k v b). P (snd kv)"
  using assms(1)
proof (induction b)
  case Nil
  with assms(2) show ?case by simp
next
  case (Cons kv b)
  then show ?case using assms(3) by (cases kv) auto
qed

lemma fold_bucket_append_nonempty:
  "\<forall>kv\<in>set (fold (\<lambda>s. bucket_append (f s) s) xs []). snd kv \<noteq> []"
  by (rule fold_invariant[where P = "\<lambda>b. \<forall>kv\<in>set b. snd kv \<noteq> []"])
     (simp, rule bucket_append_values, simp_all)

lemma aggregate_buckets_populated:
  assumes "\<forall>kv\<in>set b. snd kv \<noteq> []" and "populated agg"
  shows "\<exists>agg'. aggregate_buckets e gid b agg = Inr agg' \<and> populated agg'"
  using assms
proof (induction b arbitrary: agg)
  case Nil
  then show ?case by simp
next
  case (Cons kv b)
  obtain d subs where kv: "kv = (d, subs)" by (cases kv)
  with Cons.prems have ne: "subs \<noteq> []" by simp
  then have len: "1 \<le> length subs" by (cases subs) auto
  let ?a = "\<lparr> agg_gameId = gid, agg_date = d,
           agg_comments = sum_list (map comments subs),
           agg_submissions = int (length subs),
           agg_upvotes = sum_list (map upvotes subs),
           agg_downvotes = sum_list (map downvotes subs),
           date_of_request = date_str (today e) \<rparr>"
  have "\<forall>kv\<in>set (bucket_append d ?a agg). \<forall>a\<in>set (snd kv). 1 \<le> agg_submissions a"
    by (rule bucket_append_values) (use Cons.prems(2) len in \<open>auto simp: populated_def\<close>)
  then have "populated (bucket_append d ?a agg)" by (simp add: populated_def)
  with Cons.IH[of "bucket_append d ?a agg"] Cons.prems(1)
  show ?case by (simp add: kv RedditAggregationData_nonempty[OF ne])
qed

lemma collect_failure [simp]: "failure (collect r st) = failure st"
  by (simp add: collect_def)

lemma search_for_multiple_terms_failure_kinds:
  "failure (search_for_multiple_terms e h terms subs so)
     \<in> {None, Some RetrievalFailure, Some IndexError}"
  unfolding search_for_multiple_terms_def
  by (rule search_terms_loop_invariant
        [where P = "\<lambda>st. failure st \<in> {None, Some RetrievalFailure, Some IndexError}"])
     auto

lemma games_loop_populated:
  assumes "populated agg"
  shows "(\<exists>agg'. games_loop e subs games h agg = Inr agg' \<and> populated agg')
       \<or> (\<exists>err. games_loop e subs games h agg = Inl err \<and> err \<noteq> KeyError)"
  using assms
proof (induction games arbitrary: h agg)
  case Nil
  then show ?case by simp
next
  case (Cons g games)
  let ?found = "search_for_multiple_terms e h [name g, simple_url g] (Str subs) None"
  show ?case
  proof (cases "failure ?found")
    case (Some err)
    with search_for_multiple_terms_failure_kinds[of e h "[name g, simple_url g]" "Str subs" None]
    have "err \<noteq> KeyError" by auto
    with Some show ?thesis by (simp add: Let_def)
  next
    case None
    let ?b = "fold (\<lambda>s. bucket_append (created s) s) (yielded ?found) []"
    from aggregate_buckets_populated[OF fold_bucket_append_nonempty Cons.prems,
        where e = e and gid = "gameId g"]
    obtain agg' where agg': "aggregate_buckets e (gameId g) ?b agg = Inr agg'" "populated agg'"
      by blast
    from Cons.IH[OF agg'(2), of "calls ?found"] None agg'(1) show ?thesis
      by (simp add: Let_def)
  qed
qed

lemma FetchRedditDataForGames_populated:
  "(\<exists>out. FetchRedditDataForGames e names games = Inr out \<and> populated out)
   \<or> (\<exists>err. FetchRedditDataForGames e names games = Inl err \<and> err \<noteq> KeyError)"
proof -
  have "populated []" by (simp add: populated_def)
  from games_loop_populated[OF this, of e "join ''+'' (map clean_subreddit_name names)" games "[]"]
  show ?thesis
    by (auto simp: FetchRedditDataForGames_def populated_def)
qed

text \<open>
  C10. \<open>RedditAggregationData\<close> on an empty list of submissions raises \<open>KeyError\<close>, so it
  returns exactly for the non-empty lists; \<open>FetchRedditDataForGames\<close> never calls it on an
  empty list (it never raises \<open>KeyError\<close>), and every aggregate of its output counts at least
  one submission.
\<close>

theorem aggregate_needs_submissions:
  "RedditAggregationData e gid d [] = Inl KeyError
   \<and> ((\<exists>a. RedditAggregationData e gid d subs = Inr a) \<longleftrightarrow> subs \<noteq> [])
   \<and> FetchRedditDataForGames e names games \<noteq> Inl KeyError
   \<and> (\<forall>out. FetchRedditDataForGames e names games = Inr out \<longrightarrow>
        (\<forall>kv\<in>set out. \<forall>a\<in>set (snd kv). 1 \<le> agg_submissions a))"
proof -
  have "(\<exists>a. RedditAggregationData e gid d subs = Inr a) \<longleftrightarrow> subs \<noteq> []"
    using RedditAggregationData_nonempty[of subs e gid d] by (cases "subs = []") auto
  with FetchRedditDataForGames_populated[of e names games] show ?thesis
    by (auto simp: populated_def)
qed

theorem aggregate_needs_submissions_witness:
  "FetchRedditDataForGames demo_env [''r/games'', ''indie''] [demo_game]
     = Inr [(''2024-03-19'', [demo_aggregate\<lparr>agg_date := ''2024-03-19'', agg_comments := 0,
               agg_submissions := 1, agg_upvotes := 3, agg_downvotes := 0\<rparr>]),
            (''2024-03-20'', [demo_aggregate])]
   \<and> 1 \<le> agg_submissions demo_aggregate"
proof -
  have a: "FetchRedditDataForGames demo_env [''r/games'', ''indie''] [demo_game]
     = Inr [(''2024-03-19'', [demo_aggregate\<lparr>agg_date := ''2024-03-19'', agg_comments := 0,
               agg_submissions := 1, agg_upvotes := 3, agg_downvotes := 0\<rparr>]),
            (''2024-03-20'', [demo_aggregate])]"
    by code_simp
  from aggregate_needs_submissions[of demo_env _ _ _ "[''r/games'', ''indie'']" "[demo_game]"] a
  have "\<forall>kv\<in>set [(''2024-03-19'', [demo_aggregate\<lparr>agg_date := ''2024-03-19'', agg_comments := 0,
               agg_submissions := 1, agg_upvotes := 3, agg_downvotes := 0\<rparr>]),
            (''2024-03-20'', [demo_aggregate])]. \<forall>a\<in>set (snd kv). 1 \<le> agg_submissions a"
    by blast
  with a show ?thesis by simp
qed

section \<open>The calls made to the platform\<close>

lemma fold_visit_calls [simp]: "calls (fold (visit e q) xs st) = calls st"
  by (induction xs arbitrary: st) simp_all

lemma fold_visit_failure [simp]: "failure (fold (visit e q) xs st) = failure st"
  by (induction xs arbitrary: st) simp_all

lemma visit_seen_ids [simp]: "seen_ids (visit e q s st) = insert (p_id s) (seen_ids st)"
  by (auto simp: visit_def Let_def)

lemma fold_visit_seen_ids: "seen_ids (fold (visit e q) xs st) = seen_ids st \<union> p_id ` set xs"
  by (induction xs arbitrary: st) auto

lemma search_listing_calls [simp]:
  "calls (search_listing e q sq sname srt tf lmt st) = calls st @ [Search sq sname srt tf lmt]"
  by (simp add: search_listing_def Let_def)

lemma search_listing_seen_ids:
  "seen_ids (search_listing e q sq sname srt tf lmt st) =
     seen_ids st \<union> p_id ` set (fst (subreddit_search e (calls st @ [Search sq sname srt tf lmt])))"
  by (simp add: search_listing_def Let_def fold_visit_seen_ids)

lemma search_listing_failure:
  "failure (search_listing e q sq sname srt tf lmt st) =
     (if snd (subreddit_search e (calls st @ [Search sq sname srt tf lmt]))
      then Some RetrievalFailure else failure st)"
  by (simp add: search_listing_def Let_def)

lemma remaining_sorts_calls:
  "\<exists>new. calls (remaining_sorts e q sq sname tf lmt sorts st) = calls st @ new
     \<and> (\<forall>c\<in>set new. \<exists>srt. c = Search sq sname srt tf lmt)"
proof (induction sorts arbitrary: st)
  case Nil
  show ?case by simp
next
  case (Cons srt sorts)
  let ?st = "search_listing e q sq sname srt tf lmt st"
  from Cons.IH[of ?st] obtain new where
    "calls (remaining_sorts e q sq sname tf lmt sorts ?st) = calls ?st @ new"
    "\<forall>c\<in>set new. \<exists>srt. c = Search sq sname srt tf lmt"
    by blast
  then show ?case
    by (cases "failure ?st = None") (auto simp: Let_def)
qed

lemma search_subreddit_calls:
  "\<exists>new. calls (search_subreddit e q sq sorts tf lmt sname st) = calls st @ new
     \<and> (\<forall>c\<in>set new. \<exists>srt. c = Search sq sname srt tf lmt)"
proof (cases sorts)
  case Nil
  then show ?thesis by (simp add: search_subreddit_def)
next
  case (Cons srt rest)
  let ?st = "search_listing e q sq sname srt tf lmt st"
  from remaining_sorts_calls[of e q sq sname tf lmt rest ?st] obtain new where
    "calls (remaining_sorts e q sq sname tf lmt rest ?st) = calls ?st @ new"
    "\<forall>c\<in>set new. \<exists>srt. c = Search sq sname srt tf lmt"
    by blast
  with Cons show ?thesis
    by (auto simp: search_subreddit_def Let_def)
qed

lemma search_subreddits_calls:
  "\<exists>new. calls (search_subreddits e q sq sorts tf lmt names st) = calls st @ new
     \<and> (\<forall>c\<in>set new. \<exists>sname srt. c = Search sq sname srt tf lmt)"
proof (induction names arbitrary: st)
  case Nil
  show ?case by simp
next
  case (Cons sname names)
  let ?st = "search_subreddit e q sq sorts tf lmt sname st"
  from search_subreddit_calls[of e q sq sorts tf lmt sname st] obtain new1 where
    new1: "calls ?st = calls st @ new1" "\<forall>c\<in>set new1. \<exists>srt. c = Search sq sname srt tf lmt"
    by blast
  from Cons.IH[of ?st] obtain new2 where
    new2: "calls (search_subreddits e q sq sorts tf lmt names ?st) = calls ?st @ new2"
    "\<forall>c\<in>set new2. \<exists>sname srt. c = Search sq sname srt tf lmt"
    by blast
  show ?case
  proof (cases "failure ?st")
    case None
    with new1 new2 have
      "calls (search_subreddits e q sq sorts tf lmt (sname # names) st) = calls st @ (new1 @ new2)"
      by (simp add: Let_def)
    moreover from new1 new2 have
      "\<forall>c\<in>set (new1 @ new2). \<exists>sname srt. c = Search sq sname srt tf lmt"
      by auto
    ultimately show ?thesis by blast
  next
    case (Some err)
    with new1 have
      "calls (search_subreddits e q sq sorts tf lmt (sname # names) st) = calls st @ new1"
      by (simp add: Let_def)
    moreover from new1 have "\<forall>c\<in>set new1. \<exists>sname srt. c = Search sq sname srt tf lmt"
      by auto
    ultimately show ?thesis by blast
  qed
qed

lemma search_calls:
  "\<exists>new. calls (search e h q subs tf lmt so) = h @ new
     \<and> (\<forall>c\<in>set new. \<exists>sname srt. c = Search ([CHR 0x22] @ lower q @ [CHR 0x22]) sname srt tf lmt)"
  unfolding search_def Let_def
  using search_subreddits_calls[where st = "\<lparr>seen_ids = {}, yielded = [], calls = h, failure = None\<rparr>"]
  by simp

lemma fold_collect_calls [simp]: "calls (fold collect rs st) = calls st"
  by (induction rs arbitrary: st) (simp_all add: collect_def)

lemma search_terms_loop_calls:
  "\<exists>new. calls (search_terms_loop e subs so terms st) = calls st @ new
     \<and> (\<forall>c\<in>set new. \<exists>t\<in>set terms. t \<noteq> [] \<and>
           (\<exists>sname srt. c = Search ([CHR 0x22] @ lower t @ [CHR 0x22]) sname srt ''year'' None))"
proof (induction terms arbitrary: st)
  case Nil
  show ?case by simp
next
  case (Cons query terms)
  show ?case
  proof (cases "query = []")
    case True
    from Cons.IH[of st] True show ?thesis by auto
  next
    case False
    let ?inner = "search e (calls st) query subs TIME_FILTER_DEFAULT None so"
    let ?st' = "fold collect (yielded ?inner) (st\<lparr>calls := calls ?inner\<rparr>)"
    from search_calls[of e "calls st" query subs TIME_FILTER_DEFAULT None so] obtain new1 where
      new1: "calls ?inner = calls st @ new1"
      "\<forall>c\<in>set new1. \<exists>sname srt.
          c = Search ([CHR 0x22] @ lower query @ [CHR 0x22]) sname srt ''year'' None"
      by (auto simp: TIME_FILTER_DEFAULT_def)
    show ?thesis
    proof (cases "failure ?inner")
      case (Some err)
      with False new1 have
        "calls (search_terms_loop e subs so (query # terms) st) = calls st @ new1"
        by (simp add: Let_def)
      moreover from new1 False have "\<forall>c\<in>set new1. \<exists>t\<in>set (query # terms). t \<noteq> [] \<and>
           (\<exists>sname srt. c = Search ([CHR 0x22] @ lower t @ [CHR 0x22]) sname srt ''year'' None)"
        by auto
      ultimately show ?thesis by blast
    next
      case None
      from Cons.IH[of ?st'] obtain new2 where
        new2: "calls (search_terms_loop e subs so terms ?st') = calls ?st' @ new2"
        "\<forall>c\<in>set new2. \<exists>t\<in>set terms. t \<noteq> [] \<and>
           (\<exists>sname srt. c = Search ([CHR 0x22] @ lower t @ [CHR 0x22]) sname srt ''year'' None)"
        by blast
      from None False new1 new2 have
        "calls (search_terms_loop e subs so (query # terms) st) = calls st @ (new1 @ new2)"
        by (simp add: Let_def)
      moreover from new1 new2 False have "\<forall>c\<in>set (new1 @ new2). \<exists>t\<in>set (query # terms). t \<noteq> [] \<and>
           (\<exists>sname srt. c = Search ([CHR 0x22] @ lower t @ [CHR 0x22]) sname srt ''year'' None)"
        by auto
      ultimately show ?thesis by blast
    qed
  qed
qed

lemma search_terms_loop_filter:
  "search_terms_loop e subs so (filter (\<lambda>t. t \<noteq> []) terms) st
     = search_terms_loop e subs so terms st"
  by (induction terms arbitrary: st) (simp_all add: Let_def split: option.split)

text \<open>
  C9. \<open>search_for_multiple_terms\<close> behaves as if the empty terms were not in the list; every
  call it makes to the platform carries the quoted, lower-cased text of a non-empty term;
  and on the terms \<open>["", "cat"]\<close> its calls are those of the one search for \<open>"cat"\<close>.
\<close>

theorem empty_terms_are_skipped:
  "search_for_multiple_terms e history terms subs so
     = search_for_multiple_terms e history (filter (\<lambda>t. t \<noteq> []) terms) subs so
   \<and> calls (search_for_multiple_terms e history ['''', ''cat''] subs so)
       = calls (search e history ''cat'' subs TIME_FILTER_DEFAULT None so)
   \<and> (\<exists>new. calls (search_for_multiple_terms e history terms subs so) = history @ new
        \<and> (\<forall>c\<in>set new. \<exists>t\<in>set terms. t \<noteq> [] \<and>
              (\<exists>sname srt. c = Search ([CHR 0x22] @ lower t @ [CHR 0x22]) sname srt ''year'' None)))"
proof -
  have "calls (search_for_multiple_terms e history ['''', ''cat''] subs so)
       = calls (search e history ''cat'' subs TIME_FILTER_DEFAULT None so)"
    by (simp add: search_for_multiple_terms_def Let_def split: option.split)
  moreover have "\<exists>new. calls (search_for_multiple_terms e history terms subs so) = history @ new
        \<and> (\<forall>c\<in>set new. \<exists>t\<in>set terms. t \<noteq> [] \<and>
              (\<exists>sname srt. c = Search ([CHR 0x22] @ lower t @ [CHR 0x22]) sname srt ''year'' None))"
    unfolding search_for_multiple_terms_def
    using search_terms_loop_calls[where
        st = "\<lparr>seen_ids = {}, yielded = [], calls = history, failure = None\<rparr>"]
    by simp
  ultimately show ?thesis
    by (simp add: search_for_multiple_terms_def search_terms_loop_filter)
qed

text \<open>With one subreddit and a short listing, exactly one call: the search for \<open>"cat"\<close>.\<close>

theorem empty_terms_are_skipped_witness:
  "calls (search_for_multiple_terms demo_env [] ['''', ''cat''] (Str ''games'') None)
     = [Search [CHR 0x22, CHR ''c'', CHR ''a'', CHR ''t'', CHR 0x22] ''games'' ''relevance'' ''year'' None]
   \<and> ''cat'' \<in> set ['''', ''cat''] \<and> ''cat'' \<noteq> []
   \<and> [CHR 0x22, CHR ''c'', CHR ''a'', CHR ''t'', CHR 0x22] = [CHR 0x22] @ lower ''cat'' @ [CHR 0x22]"
proof -
  have "calls (search demo_env [] ''cat'' (Str ''games'') TIME_FILTER_DEFAULT None None)
     = [Search [CHR 0x22, CHR ''c'', CHR ''a'', CHR ''t'', CHR 0x22] ''games'' ''relevance'' ''year'' None]"
    by code_simp
  moreover have "[CHR 0x22, CHR ''c'', CHR ''a'', CHR ''t'', CHR 0x22] = [CHR 0x22] @ lower ''cat'' @ [CHR 0x22]"
    by code_simp
  ultimately show ?thesis
    using empty_terms_are_skipped[of demo_env "[]" _ "Str ''games''" None,
        THEN conjunct2, THEN conjunct1]
    by simp
qed

section \<open>The cascade of sorts\<close>

text \<open>
  What the code guarantees: no further sort is searched in a subreddit when, after its
  first search, fewer than 250 ids have been seen in the whole call. For the first
  subreddit of a call this is the case as soon as its first listing has fewer than 250
  entries.
\<close>

lemma search_subreddit_short_circuit:
  assumes "card (seen_ids st
      \<union> p_id ` set (fst (subreddit_search e (calls st @ [Search sq sname srt tf lmt])))) < 250"
  shows "calls (search_subreddit e q sq (srt # sorts) tf lmt sname st)
    = calls st @ [Search sq sname srt tf lmt]"
  using assms
  by (simp add: search_subreddit_def Let_def search_listing_seen_ids del: remaining_sorts.simps)

lemma first_subreddit_short_circuit:
  assumes "length (fst (subreddit_search e (h @ [Search sq sname srt tf lmt]))) < 250"
  shows "calls (search_subreddit e q sq (srt # sorts) tf lmt sname
            \<lparr>seen_ids = {}, yielded = [], calls = h, failure = None\<rparr>)
    = h @ [Search sq sname srt tf lmt]"
proof -
  let ?xs = "fst (subreddit_search e (h @ [Search sq sname srt tf lmt]))"
  have "card (p_id ` set ?xs) \<le> card (set ?xs)" by (rule card_image_le) simp
  also have "\<dots> \<le> length ?xs" by (rule card_length)
  finally have "card (p_id ` set ?xs) < 250" using assms by simp
  then show ?thesis
    using search_subreddit_short_circuit
      [of "\<lparr>seen_ids = {}, yielded = [], calls = h, failure = None\<rparr>" e sq sname srt tf lmt q sorts]
    by simp
qed

lemma bulk_search_later: "cs \<noteq> [] \<Longrightarrow> subreddit_search bulk_env (cs @ [c]) = ([], False)"
  by (cases cs) (simp_all add: bulk_env_def)

lemma bulk_listing_later:
  "calls st \<noteq> [] \<Longrightarrow>
     search_listing bulk_env q sq sname srt tf lmt st
       = st\<lparr>calls := calls st @ [Search sq sname srt tf lmt]\<rparr>"
  by (simp add: search_listing_def Let_def bulk_search_later)

lemma bulk_remaining_sorts:
  "calls st \<noteq> [] \<Longrightarrow> failure st = None \<Longrightarrow>
     remaining_sorts bulk_env q sq sname tf lmt sorts st
       = st\<lparr>calls := calls st @ map (\<lambda>srt. Search sq sname srt tf lmt) sorts\<rparr>"
  by (induction sorts arbitrary: st) (simp_all add: bulk_listing_later Let_def)

lemma bulk_ids: "card (p_id ` set bulk_listing) = 250"
proof -
  have "p_id ` set bulk_listing = (\<lambda>n. replicate n (CHR ''x'')) ` {1..<251}"
    by (simp add: bulk_listing_def post_def image_image)
  moreover have "inj_on (\<lambda>n. replicate n (CHR ''x'')) {1..<251}"
    by (auto intro!: inj_onI dest: arg_cong[where f = length])
  ultimately show ?thesis by (simp add: card_image)
qed

text \<open>
  C3 on the code. Subreddit \<open>a\<close> brings 250 ids with its first search; the first search of
  subreddit \<open>b\<close> then returns nothing at all, and yet the four other sorts are searched in
  \<open>b\<close> as well: the test is on the number of ids seen in the whole call.
\<close>

theorem cascade_counts_all_subreddits:
  "fst (subreddit_search bulk_env
         (map (\<lambda>srt. Search [CHR 0x22, CHR ''c'', CHR ''a'', CHR ''t'', CHR 0x22] ''a'' srt ''year'' None)
              [''relevance'', ''hot'', ''top'', ''new'', ''comments'']
          @ [Search [CHR 0x22, CHR ''c'', CHR ''a'', CHR ''t'', CHR 0x22] ''b'' ''relevance'' ''year'' None])) = []
   \<and> calls (search bulk_env [] ''cat'' (Lst [''a'', ''b'']) ''year'' None None)
     = map (\<lambda>srt. Search [CHR 0x22, CHR ''c'', CHR ''a'', CHR ''t'', CHR 0x22] ''a'' srt ''year'' None)
           [''relevance'', ''hot'', ''top'', ''new'', ''comments'']
       @ map (\<lambda>srt. Search [CHR 0x22, CHR ''c'', CHR ''a'', CHR ''t'', CHR 0x22] ''b'' srt ''year'' None)
           [''relevance'', ''hot'', ''top'', ''new'', ''comments'']"
proof -
  let ?sq = "[CHR 0x22, CHR ''c'', CHR ''a'', CHR ''t'', CHR 0x22]"
  let ?st0 = "\<lparr>seen_ids = {}, yielded = [], calls = [], failure = None\<rparr>"
  let ?st1 = "search_listing bulk_env ''cat'' ?sq ''a'' ''relevance'' ''year'' None ?st0"
  have first: "subreddit_search bulk_env [Search ?sq ''a'' ''relevance'' ''year'' None]
      = (bulk_listing, False)"
    by (simp add: bulk_env_def)
  have calls1: "calls ?st1 = [Search ?sq ''a'' ''relevance'' ''year'' None]" by simp
  have fail1: "failure ?st1 = None" by (simp add: search_listing_failure first)
  have seen1: "card (seen_ids ?st1) = 250"
    by (simp add: search_listing_seen_ids first bulk_ids)
  let ?st2 = "search_subreddit bulk_env ''cat'' ?sq
      [''relevance'', ''hot'', ''top'', ''new'', ''comments''] ''year'' None ''a'' ?st0"
  have rem1: "remaining_sorts bulk_env ''cat'' ?sq ''a'' ''year'' None
        [''hot'', ''top'', ''new'', ''comments''] ?st1
      = ?st1\<lparr>calls := calls ?st1
          @ map (\<lambda>srt. Search ?sq ''a'' srt ''year'' None) [''hot'', ''top'', ''new'', ''comments'']\<rparr>"
    by (rule bulk_remaining_sorts) (simp_all add: fail1)
  have "?st2 = remaining_sorts bulk_env ''cat'' ?sq ''a'' ''year'' None
        [''hot'', ''top'', ''new'', ''comments''] ?st1"
    using fail1 seen1 by (simp add: search_subreddit_def Let_def del: remaining_sorts.simps)
  with rem1 have st2: "?st2 = ?st1\<lparr>calls := calls ?st1
       @ map (\<lambda>srt. Search ?sq ''a'' srt ''year'' None) [''hot'', ''top'', ''new'', ''comments'']\<rparr>"
    by simp
  have calls2: "calls ?st2 = map (\<lambda>srt. Search ?sq ''a'' srt ''year'' None)
      [''relevance'', ''hot'', ''top'', ''new'', ''comments'']"
    by (simp only: st2) simp
  have fail2: "failure ?st2 = None" by (simp only: st2) (simp add: fail1)
  have seen2: "card (seen_ids ?st2) = 250" by (simp only: st2) (simp add: seen1)
  let ?st3 = "search_listing bulk_env ''cat'' ?sq ''b'' ''relevance'' ''year'' None ?st2"
  have st3: "?st3 = ?st2\<lparr>calls := calls ?st2 @ [Search ?sq ''b'' ''relevance'' ''year'' None]\<rparr>"
    by (rule bulk_listing_later) (simp add: calls2)
  let ?st4 = "search_subreddit bulk_env ''cat'' ?sq
      [''relevance'', ''hot'', ''top'', ''new'', ''comments''] ''year'' None ''b'' ?st2"
  have facts3: "failure ?st3 = None" "250 \<le> card (seen_ids ?st3)" "calls ?st3 \<noteq> []"
    by (simp_all only: st3) (simp_all add: fail2 seen2)
  have rem3: "remaining_sorts bulk_env ''cat'' ?sq ''b'' ''year'' None
        [''hot'', ''top'', ''new'', ''comments''] ?st3
      = ?st3\<lparr>calls := calls ?st3
          @ map (\<lambda>srt. Search ?sq ''b'' srt ''year'' None) [''hot'', ''top'', ''new'', ''comments'']\<rparr>"
    by (rule bulk_remaining_sorts) (rule facts3)+
  have "?st4 = remaining_sorts bulk_env ''cat'' ?sq ''b'' ''year'' None
        [''hot'', ''top'', ''new'', ''comments''] ?st3"
    using facts3 by (simp add: search_subreddit_def Let_def del: remaining_sorts.simps)
  with rem3 have st4: "?st4 = ?st3\<lparr>calls := calls ?st3
       @ map (\<lambda>srt. Search ?sq ''b'' srt ''year'' None) [''hot'', ''top'', ''new'', ''comments'']\<rparr>"
    by simp
  have calls4: "calls ?st4 = map (\<lambda>srt. Search ?sq ''a'' srt ''year'' None)
           [''relevance'', ''hot'', ''top'', ''new'', ''comments'']
       @ map (\<lambda>srt. Search ?sq ''b'' srt ''year'' None)
           [''relevance'', ''hot'', ''top'', ''new'', ''comments'']"
    by (simp only: st4 st3 calls2) simp
  have lower: "lower ''cat'' = ''cat''" by code_simp
  have "search bulk_env [] ''cat'' (Lst [''a'', ''b'']) ''year'' None None
      = (if failure ?st2 = None then (if failure ?st4 = None then ?st4 else ?st4) else ?st2)"
    by (simp add: search_def Let_def lower)
  then have "calls (search bulk_env [] ''cat'' (Lst [''a'', ''b'']) ''year'' None None) = calls ?st4"
    by (simp only: fail2) simp
  with calls4 bulk_search_later[of "map (\<lambda>srt. Search ?sq ''a'' srt ''year'' None)
      [''relevance'', ''hot'', ''top'', ''new'', ''comments'']"] show ?thesis
    by simp
qed

section \<open>Date texts and their order\<close>

declare decimal.simps [simp del]

lemma digit_char_less: "digit_char a < digit_char b \<longleftrightarrow> a mod 10 < b mod 10"
proof -
  have "(48 + a mod 10) mod 256 = 48 + a mod 10" "(48 + b mod 10) mod 256 = 48 + b mod 10"
    by (simp_all add: mod_less)
  then show ?thesis
    by (simp add: digit_char_def less_char_def)
qed

lemma digit_char_eq: "digit_char a = digit_char b \<longleftrightarrow> a mod 10 = b mod 10"
  using digit_char_less[of a b] digit_char_less[of b a]
  by (metis digit_char_def less_irrefl linorder_neqE_nat)

lemma digit_char_0: "digit_char 0 = CHR ''0''"
  by (simp add: digit_char_def char_of_eq_iff)

lemma length_fixed_width [simp]: "length (fixed_width w n) = w"
  by (induction w arbitrary: n) simp_all

lemma fixed_width_0: "fixed_width w 0 = replicate w (CHR ''0'')"
  by (induction w) (simp_all add: digit_char_0 replicate_append_same)

lemma length_decimal: "n < 10 ^ Suc w \<Longrightarrow> length (decimal n) \<le> Suc w"
proof (induction w arbitrary: n)
  case 0
  then show ?case by (simp add: decimal.simps[of n])
next
  case (Suc w)
  show ?case
  proof (cases "n < 10")
    case True
    then show ?thesis by (simp add: decimal.simps[of n])
  next
    case False
    from Suc.prems have "n div 10 < 10 ^ Suc w" by (simp add: div_less_iff_less_mult mult.commute)
    from Suc.IH[OF this] False show ?thesis by (simp add: decimal.simps[of n])
  qed
qed

lemma zero_pad_fixed_width: "n < 10 ^ Suc w \<Longrightarrow> zero_pad (Suc w) n = fixed_width (Suc w) n"
proof (induction w arbitrary: n)
  case 0
  then show ?case by (simp add: zero_pad_def decimal.simps[of n])
next
  case (Suc w)
  show ?case
  proof (cases "n < 10")
    case True
    then show ?thesis
      by (simp add: zero_pad_def decimal.simps[of n] fixed_width_0 replicate_append_same)
  next
    case False
    from Suc.prems have small: "n div 10 < 10 ^ Suc w"
      by (simp add: div_less_iff_less_mult mult.commute)
    from length_decimal[OF small] have "length (decimal (n div 10)) \<le> Suc w" .
    then have "zero_pad (Suc (Suc w)) n = zero_pad (Suc w) (n div 10) @ [digit_char n]"
      using False by (simp add: zero_pad_def decimal.simps[of n] Suc_diff_le)
    with Suc.IH[OF small] show ?thesis by simp
  qed
qed

lemma less_append_same_length:
  fixes xs ys :: "'a::linorder list"
  assumes "length xs = length ys"
  shows "xs @ us < ys @ vs \<longleftrightarrow> xs < ys \<or> (xs = ys \<and> us < vs)"
  using assms by (induction xs ys rule: list_induct2) auto

lemma last_digit_less:
  fixes qa ra qb rb :: nat
  assumes "ra < 10" and "rb < 10"
  shows "10 * qa + ra < 10 * qb + rb \<longleftrightarrow> qa < qb \<or> (qa = qb \<and> ra < rb)"
  using assms by arith

lemma last_digit_eq:
  fixes qa ra qb rb :: nat
  assumes "ra < 10" and "rb < 10"
  shows "10 * qa + ra = 10 * qb + rb \<longleftrightarrow> qa = qb \<and> ra = rb"
  using assms by arith

lemma fixed_width_less:
  "a < 10 ^ w \<Longrightarrow> b < 10 ^ w \<Longrightarrow>
     (fixed_width w a < fixed_width w b \<longleftrightarrow> a < b) \<and> (fixed_width w a = fixed_width w b \<longleftrightarrow> a = b)"
proof (induction w arbitrary: a b)
  case 0
  then show ?case by simp
next
  case (Suc w)
  from Suc.prems have "a div 10 < 10 ^ w" "b div 10 < 10 ^ w"
    by (simp_all add: div_less_iff_less_mult mult.commute)
  from Suc.IH[OF this] have
    IH: "fixed_width w (a div 10) < fixed_width w (b div 10) \<longleftrightarrow> a div 10 < b div 10"
      "fixed_width w (a div 10) = fixed_width w (b div 10) \<longleftrightarrow> a div 10 = b div 10"
    by simp_all
  have less: "a < b \<longleftrightarrow> a div 10 < b div 10 \<or> (a div 10 = b div 10 \<and> a mod 10 < b mod 10)"
    using last_digit_less[of "a mod 10" "b mod 10" "a div 10" "b div 10"] by simp
  have eq: "a = b \<longleftrightarrow> a div 10 = b div 10 \<and> a mod 10 = b mod 10"
    using last_digit_eq[of "a mod 10" "b mod 10" "a div 10" "b div 10"] by simp
  show ?case
    by (simp add: less_append_same_length IH digit_char_less digit_char_eq less eq)
qed

lemma zero_pad_4: "n < 10000 \<Longrightarrow> zero_pad 4 n = fixed_width 4 n"
proof -
  assume "n < 10000"
  then have "zero_pad (Suc 3) n = fixed_width (Suc 3) n"
    by (intro zero_pad_fixed_width) simp
  moreover have "Suc 3 = 4" by simp
  ultimately show ?thesis by (simp only:)
qed

lemma zero_pad_2: "n < 100 \<Longrightarrow> zero_pad 2 n = fixed_width 2 n"
proof -
  assume "n < 100"
  then have "zero_pad (Suc 1) n = fixed_width (Suc 1) n"
    by (intro zero_pad_fixed_width) simp
  moreover have "Suc 1 = 2" by simp
  ultimately show ?thesis by (simp only:)
qed

lemma date_str_fixed:
  assumes "valid_date d"
  shows "date_str d = fixed_width 4 (year d) @ ''-'' @ fixed_width 2 (month d) @ ''-''
           @ fixed_width 2 (day d)"
proof -
  from assms have "year d < 10000" "month d < 100" "day d < 100"
    by (simp_all add: valid_date_def)
  then show ?thesis
    by (simp only: date_str_def zero_pad_4 zero_pad_2)
qed

text \<open>On dates, the order of the texts \<open>str(d)\<close> is the order of the dates.\<close>

lemma date_str_less:
  assumes "valid_date a" and "valid_date b"
  shows "date_str a < date_str b \<longleftrightarrow> date_less a b"
proof -
  from assms have "year a < 10 ^ 4" "year b < 10 ^ 4"
    by (simp_all add: valid_date_def)
  from fixed_width_less[OF this] have
    y: "fixed_width 4 (year a) < fixed_width 4 (year b) \<longleftrightarrow> year a < year b"
       "fixed_width 4 (year a) = fixed_width 4 (year b) \<longleftrightarrow> year a = year b"
    by simp_all
  from assms have "month a < 10 ^ 2" "month b < 10 ^ 2"
    by (simp_all add: valid_date_def)
  from fixed_width_less[OF this] have
    m: "fixed_width 2 (month a) < fixed_width 2 (month b) \<longleftrightarrow> month a < month b"
       "fixed_width 2 (month a) = fixed_width 2 (month b) \<longleftrightarrow> month a = month b"
    by simp_all
  from assms have "day a < 10 ^ 2" "day b < 10 ^ 2"
    by (simp_all add: valid_date_def)
  from fixed_width_less[OF this] have
    d: "fixed_width 2 (day a) < fixed_width 2 (day b) \<longleftrightarrow> day a < day b"
    by simp
  have tail: "''-'' @ fixed_width 2 (day a) < ''-'' @ fixed_width 2 (day b)
      \<longleftrightarrow> day a < day b"
    by (simp add: d)
  have months: "''-'' @ fixed_width 2 (month a) @ ''-'' @ fixed_width 2 (day a)
        < ''-'' @ fixed_width 2 (month b) @ ''-'' @ fixed_width 2 (day b)
      \<longleftrightarrow> month a < month b \<or> (month a = month b \<and> day a < day b)"
  proof -
    have "fixed_width 2 (month a) @ ''-'' @ fixed_width 2 (day a)
        < fixed_width 2 (month b) @ ''-'' @ fixed_width 2 (day b)
      \<longleftrightarrow> month a < month b \<or> (month a = month b \<and> day a < day b)"
      by (subst less_append_same_length) (simp_all only: length_fixed_width m tail)
    then show ?thesis by simp
  qed
  have "date_str a < date_str b \<longleftrightarrow>
      year a < year b \<or> (year a = year b \<and> (month a < month b \<or> (month a = month b \<and> day a < day b)))"
    unfolding date_str_fixed[OF assms(1)] date_str_fixed[OF assms(2)]
    by (subst less_append_same_length) (simp_all only: length_fixed_width y months)
  then show ?thesis by (simp only: date_less_def)
qed

section \<open>The cutoff of the windowed fetchers\<close>

lemma keep_results_recent:
  "results_recent e fd st \<Longrightarrow> results_recent e fd (keep e fd s st)"
  by (auto simp: results_recent_def keep_def Let_def)

lemma filter_date_of_days:
  assumes "(period, days) \<in> set [(''D'', 1), (''W'', 7), (''M'', 30), (''Y'', 365)]"
  shows "filter_date_of e period = Inr (date_str (minus_days e (today e) days))"
  using assms by (auto simp: filter_date_of_def collection_days_def dict_def)

lemma recent_after_cutoff:
  assumes recent: "results_recent e (date_str cutoff) st"
    and valid: "\<forall>t. valid_date (fromtimestamp e t)" "valid_date cutoff"
  shows "(\<forall>r\<in>set (results st). \<exists>s. r = RedditSubmission e s)
     \<and> (\<forall>s. RedditSubmission e s \<in> set (results st)
            \<longrightarrow> date_less cutoff (fromtimestamp e (p_created_utc s)))"
proof (intro conjI allI impI)
  from recent show "\<forall>r\<in>set (results st). \<exists>s. r = RedditSubmission e s"
    by (auto simp: results_recent_def)
next
  fix s
  assume "RedditSubmission e s \<in> set (results st)"
  with recent have "date_str cutoff < created (RedditSubmission e s)"
    by (auto simp: results_recent_def)
  then have "date_str cutoff < date_str (fromtimestamp e (p_created_utc s))"
    by (simp add: RedditSubmission_def)
  with valid show "date_less cutoff (fromtimestamp e (p_created_utc s))"
    by (simp add: date_str_less)
qed

text \<open>
  C8. For a period D, W, M or Y, with its 1, 7, 30 or 365 days, every record that a windowed
  fetcher returns is the conversion of a submission, and a submission whose conversion is
  returned has a date strictly after \<open>today - days\<close>: an item whose date is not strictly
  after the cutoff is not among the results. The comparison the code makes is on the texts
  of the dates; on the dates of Python it is the comparison of the dates.
\<close>

theorem fetched_after_cutoff:
  assumes "(period, days) \<in> set [(''D'', 1), (''W'', 7), (''M'', 30), (''Y'', 365)]"
    and "\<forall>t. valid_date (fromtimestamp e t)"
    and "valid_date (minus_days e (today e) days)"
  shows "(\<forall>rs. FetchRedditSubmissionsInSubreddits e names period limit = Inr rs \<longrightarrow>
            (\<forall>r\<in>set rs. \<exists>s. r = RedditSubmission e s)
            \<and> (\<forall>s. RedditSubmission e s \<in> set rs \<longrightarrow>
                  date_less (minus_days e (today e) days) (fromtimestamp e (p_created_utc s))))
       \<and> (\<forall>rs. FetchRedditSubmissionsByUsers e users period limit = Inr rs \<longrightarrow>
            (\<forall>r\<in>set rs. \<exists>s. r = RedditSubmission e s)
            \<and> (\<forall>s. RedditSubmission e s \<in> set rs \<longrightarrow>
                  date_less (minus_days e (today e) days) (fromtimestamp e (p_created_utc s))))"
proof (intro conjI allI impI)
  let ?cutoff = "minus_days e (today e) days"
  let ?init = "\<lparr>seen = {}, results = [], fetch_calls = []\<rparr>"
  have init: "results_recent e (date_str ?cutoff) ?init" by (simp add: results_recent_def)
  note fd = filter_date_of_days[OF assms(1), of e]
  {
    fix rs
    assume "FetchRedditSubmissionsInSubreddits e names period limit = Inr rs"
    then obtain st where st: "fetch_subreddits e (date_str ?cutoff) limit names ?init = Inr st"
      and rs: "rs = results st"
      by (auto simp: FetchRedditSubmissionsInSubreddits_def fd split: sum.splits)
    have "results_recent e (date_str ?cutoff) st"
      by (rule fetch_subreddits_invariant
            [where P = "results_recent e (date_str ?cutoff)", OF st init])
         (simp_all add: keep_results_recent, simp add: results_recent_def)
    from recent_after_cutoff[OF this assms(2,3)] rs
    show "\<forall>r\<in>set rs. \<exists>s. r = RedditSubmission e s"
      and "\<And>s. RedditSubmission e s \<in> set rs \<Longrightarrow>
             date_less ?cutoff (fromtimestamp e (p_created_utc s))"
      by simp_all
  }
  {
    fix rs
    assume "FetchRedditSubmissionsByUsers e users period limit = Inr rs"
    then obtain st where st: "fetch_users e (date_str ?cutoff) limit users ?init = Inr st"
      and rs: "rs = results st"
      by (auto simp: FetchRedditSubmissionsByUsers_def fd split: sum.splits)
    have "results_recent e (date_str ?cutoff) st"
      by (rule fetch_users_invariant
            [where P = "results_recent e (date_str ?cutoff)", OF st init])
         (simp_all add: keep_results_recent, simp add: results_recent_def)
    from recent_after_cutoff[OF this assms(2,3)] rs
    show "\<forall>r\<in>set rs. \<exists>s. r = RedditSubmission e s"
      and "\<And>s. RedditSubmission e s \<in> set rs \<Longrightarrow>
             date_less ?cutoff (fromtimestamp e (p_created_utc s))"
      by simp_all
  }
qed

text \<open>
  With period D and today 2024-03-20: the submission of 2024-03-20 is returned, the one of
  2024-03-19 (today - 1) is not.
\<close>

theorem fetched_after_cutoff_witness:
  "(''D'', 1) \<in> set [(''D'', 1), (''W'', 7), (''M'', 30), (''Y'', 365 :: nat)]
   \<and> (\<forall>t. valid_date (fromtimestamp demo_env t))
   \<and> valid_date (minus_days demo_env (today demo_env) 1)
   \<and> FetchRedditSubmissionsInSubreddits demo_env [''r/games''] ''D'' None
       = Inr (map (RedditSubmission demo_env) [cat_post, sunk_post])
   \<and> RedditSubmission demo_env cat_post \<in> set (map (RedditSubmission demo_env) [cat_post, sunk_post])
   \<and> date_less (minus_days demo_env (today demo_env) 1)
        (fromtimestamp demo_env (p_created_utc cat_post))
   \<and> fromtimestamp demo_env (p_created_utc old_post) = minus_days demo_env (today demo_env) 1
   \<and> RedditSubmission demo_env old_post \<notin> set (map (RedditSubmission demo_env) [cat_post, sunk_post])"
proof -
  have period: "(''D'', 1) \<in> set [(''D'', 1), (''W'', 7), (''M'', 30), (''Y'', 365 :: nat)]"
    by simp
  have valid: "\<forall>t. valid_date (fromtimestamp demo_env t)"
  proof
    fix t :: rat
    have "\<lfloor>t / 86400\<rfloor> mod 31 < 31" "0 \<le> \<lfloor>t / 86400\<rfloor> mod 31" by simp_all
    then have "nat (\<lfloor>t / 86400\<rfloor> mod 31) \<le> 30" by linarith
    then show "valid_date (fromtimestamp demo_env t)"
      by (simp add: demo_env_def valid_date_def)
  qed
  have cutoff: "valid_date (minus_days demo_env (today demo_env) 1)"
    by code_simp
  have fetched: "FetchRedditSubmissionsInSubreddits demo_env [''r/games''] ''D'' None
       = Inr (map (RedditSubmission demo_env) [cat_post, sunk_post])"
    by code_simp
  have mem: "RedditSubmission demo_env cat_post
      \<in> set (map (RedditSubmission demo_env) [cat_post, sunk_post])"
    by simp
  have old: "fromtimestamp demo_env (p_created_utc old_post)
      = minus_days demo_env (today demo_env) 1"
    by code_simp
  have "\<not> date_less (minus_days demo_env (today demo_env) 1)
      (fromtimestamp demo_env (p_created_utc old_post))"
    unfolding old by (simp add: date_less_def)
  with fetched_after_cutoff[OF period valid cutoff, of "[''r/games'']" None] fetched mem
  have "date_less (minus_days demo_env (today demo_env) 1)
        (fromtimestamp demo_env (p_created_utc cat_post))"
    and "RedditSubmission demo_env old_post
      \<notin> set (map (RedditSubmission demo_env) [cat_post, sunk_post])"
    by blast+
  with period valid cutoff fetched mem old show ?thesis by blast
qed

end
